theory Spec2Isabelle
  imports Complex_Main "HOL-Library.Word"
begin

unbundle bit_operations_syntax

section \<open>The KC705 MobileNetV3 PCIe driver\<close>

text \<open>
  A shallow embedding of \<^verbatim>\<open>kc705_mobilenet_driver.c\<close> and the constants of
  \<^verbatim>\<open>kc705_mobilenet_driver.h\<close>. Every function of the driver becomes a function that
  takes the world the driver runs in and returns its C return value together with the
  world it leaves behind. Conventions:

  \<^item> a \<^verbatim>\<open>kc705_device_t*\<close> is a \<open>handle\<close>: the null pointer, a pointer to a struct that
    is allocated, or a pointer to a struct that \<^verbatim>\<open>free\<close> has taken back;
  \<^item> a call that touches storage it must not touch does not return: the result is
    \<open>None\<close>. That is a read of a freed struct, an access through a pointer that is
    \<^verbatim>\<open>MAP_FAILED\<close>, and an access to the register window at an offset past the 4096 bytes
    that \<open>map_pci_device\<close> maps. C gives such a run no meaning, and on the host it ends
    in a fault. Every other call returns \<open>Some\<close>;
  \<^item> an out-parameter (\<^verbatim>\<open>classification_result_t*\<close>, \<^verbatim>\<open>uint32_t*\<close>) is passed in and
    handed back, so that "the function did not write it" is an equation;
  \<^item> the register window and the data window are stores indexed by byte offset; the
    register window is read and written in aligned 32-bit words;
  \<^item> the device acts while the driver sleeps: \<open>hw\<close> says what the device has made of
    its registers and its memory at a given time, and \<^verbatim>\<open>usleep\<close> applies it;
  \<^item> every access to the device, every sleep and every release of a resource is
    appended to \<open>trace\<close>, so that "reads no further register" and "without side
    effects" can be stated;
  \<^item> \<^verbatim>\<open>float\<close> is modelled by \<open>real\<close>: the quotient is exact, the rounding of the
    C division is not modelled;
  \<^item> \<^verbatim>\<open>DEBUG_PRINT\<close> only prints and is left out.
\<close>

subsection \<open>Constants of the header\<close>

type_synonym u8 = "8 word"
type_synonym u32 = "32 word"

abbreviation (input) KC705_MAX_DEVICES :: int where "KC705_MAX_DEVICES \<equiv> 8"

abbreviation (input) KC705_IMAGE_BASE :: nat where "KC705_IMAGE_BASE \<equiv> 0x1000"
abbreviation (input) KC705_RESULT_BASE :: nat where "KC705_RESULT_BASE \<equiv> 0x2000"

abbreviation (input) REG_CONTROL :: u32 where "REG_CONTROL \<equiv> 0x00"
abbreviation (input) REG_STATUS :: u32 where "REG_STATUS \<equiv> 0x04"
abbreviation (input) REG_IMAGE_SIZE :: u32 where "REG_IMAGE_SIZE \<equiv> 0x0C"

abbreviation (input) CTRL_START :: u32 where "CTRL_START \<equiv> 1"
abbreviation (input) CTRL_RESET :: u32 where "CTRL_RESET \<equiv> 2"
abbreviation (input) CTRL_IRQ_EN :: u32 where "CTRL_IRQ_EN \<equiv> 4"

abbreviation (input) STAT_DONE :: u32 where "STAT_DONE \<equiv> 1"
abbreviation (input) STAT_ERROR :: u32 where "STAT_ERROR \<equiv> 4"

abbreviation (input) NUM_CLASSES :: u32 where "NUM_CLASSES \<equiv> 1000"

abbreviation (input) KC705_SUCCESS :: int where "KC705_SUCCESS \<equiv> 0"
abbreviation (input) KC705_ERROR :: int where "KC705_ERROR \<equiv> - 1"
abbreviation (input) KC705_TIMEOUT :: int where "KC705_TIMEOUT \<equiv> - 2"
abbreviation (input) KC705_NO_DEVICE :: int where "KC705_NO_DEVICE \<equiv> - 3"
abbreviation (input) KC705_INVALID_PARAM :: int where "KC705_INVALID_PARAM \<equiv> - 4"

subsection \<open>Data structures\<close>

text \<open>A \<^verbatim>\<open>void*\<close> that holds the result of \<^verbatim>\<open>mmap\<close>, or null after \<^verbatim>\<open>memset\<close>.\<close>

datatype ptr = NULL | MAP_FAILED | Mapped

record kc705_device =
  pci_fd :: int
  reg_base :: ptr
  mem_base :: ptr
  bar_size :: "u32 list"
  is_open :: bool
  device_id :: u32
  device_path :: string

text \<open>A \<^verbatim>\<open>kc705_device_t*\<close> as a caller may hold it.\<close>

datatype handle = Null | Freed | Live kc705_device

record classification_result =
  class_id :: u32
  confidence :: real
  processing_time_us :: u32
  valid :: bool

subsection \<open>The world: device windows, time, and the log of effects\<close>

datatype event =
    Reg_read u32 u32
  | Reg_write u32 u32
  | Mem_copy nat "u8 list"
  | Mem_read nat u32
  | Usleep nat
  | Munmap_reg
  | Munmap_mem
  | Close_fd int
  | Free_device

type_synonym windows = "(u32 \<Rightarrow> u32) \<times> (nat \<Rightarrow> u8)"

record world =
  regs :: "u32 \<Rightarrow> u32"
  mem :: "nat \<Rightarrow> u8"
  now :: nat
  hw :: "nat \<Rightarrow> windows \<Rightarrow> windows"
  trace :: "event list"

definition log_event :: "event \<Rightarrow> world \<Rightarrow> world" where
  "log_event e w = w\<lparr>trace := trace w @ [e]\<rparr>"

text \<open>\<^verbatim>\<open>usleep(us)\<close>: time passes and the device does what it does in that time.\<close>

definition usleep :: "nat \<Rightarrow> world \<Rightarrow> world" where
  "usleep us w =
     (let t = now w + us;
          (r, m) = hw w t (regs w, mem w)
      in w\<lparr>regs := r, mem := m, now := t, trace := trace w @ [Usleep us]\<rparr>)"

text \<open>
  A 32-bit load from byte memory, as \<^verbatim>\<open>*(uint32_t*)(p + i)\<close> does on the little-endian
  hosts the driver is built for. The memory is a function of the byte index, so a load
  that runs past the caller's \<open>size\<close> reads whatever lies there.
\<close>

definition load32 :: "(nat \<Rightarrow> u8) \<Rightarrow> nat \<Rightarrow> u32" where
  "load32 m i =
     ucast (m i) OR push_bit 8 (ucast (m (i + 1)))
       OR push_bit 16 (ucast (m (i + 2))) OR push_bit 24 (ucast (m (i + 3)))"


subsection \<open>Register access\<close>

text \<open>
  \<open>map_pci_device\<close> maps 4096 bytes at \<open>reg_base\<close>: a 32-bit access at \<open>offset\<close> lies in
  the mapping when its four bytes do.
\<close>

definition in_reg_window :: "u32 \<Rightarrow> bool" where
  "in_reg_window offset = (unat offset + 4 \<le> 4096)"

definition kc705_read_reg ::
  "handle \<Rightarrow> u32 \<Rightarrow> u32 \<Rightarrow> world \<Rightarrow> (int \<times> u32 \<times> world) option" where
  "kc705_read_reg device offset val w =
     (case device of
        Null \<Rightarrow> Some (KC705_INVALID_PARAM, val, w)
      | Freed \<Rightarrow> None
      | Live d \<Rightarrow>
          if \<not> is_open d \<or> reg_base d = NULL then Some (KC705_INVALID_PARAM, val, w)
          else if reg_base d = MAP_FAILED \<or> \<not> in_reg_window offset then None
          else Some (KC705_SUCCESS, regs w offset, log_event (Reg_read offset (regs w offset)) w))"

definition kc705_write_reg ::
  "handle \<Rightarrow> u32 \<Rightarrow> u32 \<Rightarrow> world \<Rightarrow> (int \<times> world) option" where
  "kc705_write_reg device offset val w =
     (case device of
        Null \<Rightarrow> Some (KC705_INVALID_PARAM, w)
      | Freed \<Rightarrow> None
      | Live d \<Rightarrow>
          if \<not> is_open d \<or> reg_base d = NULL then Some (KC705_INVALID_PARAM, w)
          else if reg_base d = MAP_FAILED \<or> \<not> in_reg_window offset then None
          else Some (KC705_SUCCESS,
                     log_event (Reg_write offset val) (w\<lparr>regs := (regs w)(offset := val)\<rparr>)))"

subsection \<open>Status and control\<close>

text \<open>
  The local \<^verbatim>\<open>status\<close> is uninitialised; it is used only when the read succeeded, so
  the value handed to \<open>kc705_read_reg\<close> for it never shows.
\<close>

definition kc705_is_done :: "handle \<Rightarrow> world \<Rightarrow> (bool \<times> world) option" where
  "kc705_is_done device w =
     (case kc705_read_reg device REG_STATUS 0 w of
        None \<Rightarrow> None
      | Some (rc, status, w') \<Rightarrow>
          if rc \<noteq> KC705_SUCCESS then Some (False, w')
          else Some (status AND STAT_DONE \<noteq> 0, w'))"

definition kc705_reset :: "handle \<Rightarrow> world \<Rightarrow> (int \<times> world) option" where
  "kc705_reset device w =
     (case kc705_write_reg device REG_CONTROL CTRL_RESET w of
        None \<Rightarrow> None
      | Some (ret, w1) \<Rightarrow>
          if ret \<noteq> KC705_SUCCESS then Some (ret, w1)
          else kc705_write_reg device REG_CONTROL 0 (usleep 1000 w1))"

subsection \<open>Upload\<close>

text \<open>
  The register fallback of \<open>kc705_upload_image\<close>:
  \<^verbatim>\<open>for (size_t i = 0; i < size; i += 4) kc705_write_reg(device, KC705_IMAGE_BASE + i, word)\<close>.
  The return value of each write is dropped, as in the source. Each word is read as
  \<^verbatim>\<open>*(uint32_t*)(image_data + i)\<close>: the last one takes the bytes that follow the buffer
  when \<open>sz\<close> is not a multiple of 4, and \<open>image_data\<close> says what they are.
\<close>

function upload_words ::
  "handle \<Rightarrow> (nat \<Rightarrow> u8) \<Rightarrow> nat \<Rightarrow> nat \<Rightarrow> world \<Rightarrow> world option" where
  "upload_words device image_data sz i w =
     (if i < sz
      then (case kc705_write_reg device (of_nat (KC705_IMAGE_BASE + i)) (load32 image_data i) w of
              None \<Rightarrow> None
            | Some (rc, w') \<Rightarrow> upload_words device image_data sz (i + 4) w')
      else Some w)"
  by pat_completeness auto
termination
  by (relation "measure (\<lambda>(device, image_data, sz, i, w). sz - i)") auto

text \<open>
  \<^verbatim>\<open>memcpy((char*)device->mem_base + KC705_IMAGE_BASE, image_data, size)\<close> into the data
  window, of which 65536 bytes are mapped.
\<close>

definition memcpy_image :: "(nat \<Rightarrow> u8) \<Rightarrow> nat \<Rightarrow> world \<Rightarrow> world" where
  "memcpy_image image_data sz w =
     log_event (Mem_copy KC705_IMAGE_BASE (map image_data [0..<sz]))
       (w\<lparr>mem := (\<lambda>a. if KC705_IMAGE_BASE \<le> a \<and> a < KC705_IMAGE_BASE + sz
                        then image_data (a - KC705_IMAGE_BASE) else mem w a)\<rparr>)"

definition kc705_upload_image ::
  "handle \<Rightarrow> (nat \<Rightarrow> u8) option \<Rightarrow> nat \<Rightarrow> world \<Rightarrow> (int \<times> world) option" where
  "kc705_upload_image device image_data sz w =
     (case device of
        Null \<Rightarrow> Some (KC705_INVALID_PARAM, w)
      | Freed \<Rightarrow> None
      | Live d \<Rightarrow>
          if \<not> is_open d then Some (KC705_INVALID_PARAM, w)
          else
            (case image_data of
               None \<Rightarrow> Some (KC705_INVALID_PARAM, w)
             | Some buf \<Rightarrow>
                 if sz > 4096 then Some (KC705_INVALID_PARAM, w)
                 else
                   (case (if mem_base d \<noteq> NULL
                          then (if mem_base d = MAP_FAILED then None
                                else Some (memcpy_image buf sz w))
                          else upload_words device buf sz 0 w) of
                      None \<Rightarrow> None
                    | Some w1 \<Rightarrow>
                        (case kc705_write_reg device REG_IMAGE_SIZE (of_nat sz) w1 of
                           None \<Rightarrow> None
                         | Some (rc, w2) \<Rightarrow> Some (KC705_SUCCESS, w2)))))"

definition kc705_start_inference :: "handle \<Rightarrow> world \<Rightarrow> (int \<times> world) option" where
  "kc705_start_inference device w =
     (case device of
        Null \<Rightarrow> Some (KC705_INVALID_PARAM, w)
      | Freed \<Rightarrow> None
      | Live d \<Rightarrow>
          if \<not> is_open d then Some (KC705_INVALID_PARAM, w)
          else kc705_write_reg device REG_CONTROL (CTRL_START OR CTRL_IRQ_EN) w)"

subsection \<open>Result retrieval\<close>

text \<open>
  The polling loop of \<open>kc705_get_result\<close>:
  \<^verbatim>\<open>while (!kc705_is_done(device) && elapsed_ms < timeout_ms) { usleep(1000); elapsed_ms++; }\<close>
  with \<^verbatim>\<open>timeout_ms = 5000\<close>. The status is read before the budget is compared, on every
  round. The loop hands back \<^verbatim>\<open>elapsed_ms\<close>, the only thing the code looks at afterwards.
\<close>

abbreviation (input) timeout_ms :: nat where "timeout_ms \<equiv> 5000"

function poll :: "handle \<Rightarrow> nat \<Rightarrow> world \<Rightarrow> (nat \<times> world) option" where
  "poll device elapsed_ms w =
     (case kc705_is_done device w of
        None \<Rightarrow> None
      | Some (finished, w1) \<Rightarrow>
          if \<not> finished \<and> elapsed_ms < timeout_ms
          then poll device (elapsed_ms + 1) (usleep 1000 w1)
          else Some (elapsed_ms, w1))"
  by pat_completeness auto
termination
  by (relation "measure (\<lambda>(device, elapsed_ms, w). timeout_ms - elapsed_ms)") auto

text \<open>
  The three result words: from the data window when \<open>mem_base\<close> is not null, else by
  three register reads whose return values the source drops. The locals are
  uninitialised; where \<open>kc705_get_result\<close> reaches the reads the handle is open with a
  register window (lemma \<open>poll_in_budget\<close>), so a read either returns the register or does
  not return, and the value handed in for the locals never shows.
\<close>

definition read_result_words ::
  "handle \<Rightarrow> kc705_device \<Rightarrow> world \<Rightarrow> (u32 \<times> u32 \<times> u32 \<times> world) option" where
  "read_result_words device d w =
     (if mem_base d \<noteq> NULL then
        (if mem_base d = MAP_FAILED then None
         else
           let c = load32 (mem w) (KC705_RESULT_BASE + 0);
               f = load32 (mem w) (KC705_RESULT_BASE + 4);
               t = load32 (mem w) (KC705_RESULT_BASE + 8)
           in Some (c, f, t,
                log_event (Mem_read (KC705_RESULT_BASE + 8) t)
                  (log_event (Mem_read (KC705_RESULT_BASE + 4) f)
                    (log_event (Mem_read (KC705_RESULT_BASE + 0) c) w))))
      else
        (case kc705_read_reg device (of_nat (KC705_RESULT_BASE + 0)) 0 w of
           None \<Rightarrow> None
         | Some (r1, c, w1) \<Rightarrow>
             (case kc705_read_reg device (of_nat (KC705_RESULT_BASE + 4)) 0 w1 of
                None \<Rightarrow> None
              | Some (r2, f, w2) \<Rightarrow>
                  (case kc705_read_reg device (of_nat (KC705_RESULT_BASE + 8)) 0 w2 of
                     None \<Rightarrow> None
                   | Some (r3, t, w3) \<Rightarrow> Some (c, f, t, w3)))))"

definition kc705_get_result ::
  "handle \<Rightarrow> classification_result option \<Rightarrow> world
     \<Rightarrow> (int \<times> classification_result option \<times> world) option" where
  "kc705_get_result device result w =
     (case device of
        Null \<Rightarrow> Some (KC705_INVALID_PARAM, result, w)
      | Freed \<Rightarrow> None
      | Live d \<Rightarrow>
          if \<not> is_open d then Some (KC705_INVALID_PARAM, result, w)
          else
            (case result of
               None \<Rightarrow> Some (KC705_INVALID_PARAM, result, w)
             | Some r \<Rightarrow>
                 (case poll device 0 w of
                    None \<Rightarrow> None
                  | Some (elapsed_ms, w1) \<Rightarrow>
                      if elapsed_ms \<ge> timeout_ms then Some (KC705_TIMEOUT, result, w1)
                      else
                        (case read_result_words device d w1 of
                           None \<Rightarrow> None
                         | Some (cid, confidence_raw, timing, w2) \<Rightarrow>
                             Some (KC705_SUCCESS,
                                   Some \<lparr>class_id = cid mod NUM_CLASSES,
                                         confidence = real (unat confidence_raw) / 10000,
                                         processing_time_us = timing,
                                         valid = True\<rparr>,
                                   w2)))))"

definition kc705_get_result_nowait ::
  "handle \<Rightarrow> classification_result option \<Rightarrow> world
     \<Rightarrow> (int \<times> classification_result option \<times> world) option" where
  "kc705_get_result_nowait device result w =
     (case kc705_is_done device w of
        None \<Rightarrow> None
      | Some (finished, w1) \<Rightarrow>
          if \<not> finished then Some (KC705_TIMEOUT, result, w1)
          else kc705_get_result device result w1)"

subsection \<open>Convenience functions\<close>

definition kc705_infer ::
  "handle \<Rightarrow> (nat \<Rightarrow> u8) option \<Rightarrow> nat \<Rightarrow> classification_result option \<Rightarrow> world
     \<Rightarrow> (int \<times> classification_result option \<times> world) option" where
  "kc705_infer device image_data sz result w =
     (case kc705_upload_image device image_data sz w of
        None \<Rightarrow> None
      | Some (ret, w1) \<Rightarrow>
          if ret \<noteq> KC705_SUCCESS then Some (ret, result, w1)
          else
            (case kc705_start_inference device w1 of
               None \<Rightarrow> None
             | Some (ret, w2) \<Rightarrow>
                 if ret \<noteq> KC705_SUCCESS then Some (ret, result, w2)
                 else kc705_get_result device result w2))"

subsection \<open>Image files\<close>

text \<open>
  \<open>files\<close> is the file system: the bytes of each file that \<^verbatim>\<open>fopen(filename, "rb")\<close>
  can open. \<open>kc705_load_image\<close> writes 224, 224, 3 through its three pointers once the
  file is open, and fails when the file holds fewer than 224 * 224 * 3 bytes.
\<close>

type_synonym files = "string \<Rightarrow> u8 list option"

definition kc705_load_image ::
  "files \<Rightarrow> string \<Rightarrow> int \<times> int \<times> int \<Rightarrow> (nat \<Rightarrow> u8) option \<times> int \<times> int \<times> int" where
  "kc705_load_image fs filename whc =
     (case fs filename of
        None \<Rightarrow> (None, whc)
      | Some bytes \<Rightarrow>
          let image_size = 224 * 224 * 3 in
          if length bytes < image_size then (None, 224, 224, 3)
          else (Some (\<lambda>i. if i < image_size then bytes ! i else 0), 224, 224, 3))"

definition kc705_infer_file ::
  "files \<Rightarrow> handle \<Rightarrow> string \<Rightarrow> classification_result option \<Rightarrow> world
     \<Rightarrow> (int \<times> classification_result option \<times> world) option" where
  "kc705_infer_file fs device filename result w =
     (case kc705_load_image fs filename (0, 0, 0) of
        (None, whc) \<Rightarrow> Some (KC705_ERROR, result, w)
      | (Some image_data, width, height, channels) \<Rightarrow>
          kc705_infer device (Some image_data) (nat (width * height * channels)) result w)"

text \<open>
  The loop of \<open>kc705_infer_batch\<close>:
  \<^verbatim>\<open>for (int i = 0; i < num_images; i++) { int ret = kc705_infer_file(device, image_files[i], &results[processed]); if (ret == KC705_SUCCESS) processed++; }\<close>.
  \<open>results\<close> is the caller's array, by index; \<^verbatim>\<open>&results[processed]\<close> is the slot the
  callee may write. The call made for each file is the parameter \<open>infer_one\<close>, so that what
  the loop does with the outcomes can be said for any of them; \<open>kc705_infer_batch\<close> puts
  \<open>kc705_infer_file\<close> there.
\<close>

type_synonym per_item =
  "string \<Rightarrow> classification_result option \<Rightarrow> world
     \<Rightarrow> (int \<times> classification_result option \<times> world) option"

fun infer_batch_loop ::
  "per_item \<Rightarrow> string list \<Rightarrow> (nat \<Rightarrow> classification_result) \<Rightarrow> nat \<Rightarrow> world
     \<Rightarrow> (nat \<times> (nat \<Rightarrow> classification_result) \<times> world) option" where
  "infer_batch_loop infer_one [] results processed w = Some (processed, results, w)"
| "infer_batch_loop infer_one (image_file # rest) results processed w =
     (case infer_one image_file (Some (results processed)) w of
        None \<Rightarrow> None
      | Some (ret, slot, w') \<Rightarrow>
          let results' = (case slot of None \<Rightarrow> results | Some r \<Rightarrow> results(processed := r))
          in if ret = KC705_SUCCESS
             then infer_batch_loop infer_one rest results' (processed + 1) w'
             else infer_batch_loop infer_one rest results' processed w')"

definition kc705_infer_batch ::
  "files \<Rightarrow> handle \<Rightarrow> string list \<Rightarrow> (nat \<Rightarrow> classification_result) \<Rightarrow> world
     \<Rightarrow> (int \<times> (nat \<Rightarrow> classification_result) \<times> world) option" where
  "kc705_infer_batch fs device image_files results w =
     (case infer_batch_loop (kc705_infer_file fs device) image_files results 0 w of
        None \<Rightarrow> None
      | Some (processed, results', w') \<Rightarrow> Some (int processed, results', w'))"

subsection \<open>Device lifecycle\<close>

text \<open>
  \<open>kc705_close\<close> clears \<open>is_open\<close> and frees the struct: the pointer the caller still
  holds is \<open>Freed\<close> from then on.
\<close>

definition kc705_close :: "handle \<Rightarrow> world \<Rightarrow> (int \<times> handle \<times> world) option" where
  "kc705_close device w =
     (case device of
        Null \<Rightarrow> Some (KC705_INVALID_PARAM, Null, w)
      | Freed \<Rightarrow> None
      | Live d \<Rightarrow>
          if \<not> is_open d then Some (KC705_INVALID_PARAM, Live d, w)
          else
            let w1 = (if reg_base d \<noteq> NULL \<and> reg_base d \<noteq> MAP_FAILED
                      then log_event Munmap_reg w else w);
                w2 = (if mem_base d \<noteq> NULL \<and> mem_base d \<noteq> MAP_FAILED
                      then log_event Munmap_mem w1 else w1);
                w3 = (if pci_fd d \<ge> 0 then log_event (Close_fd (pci_fd d)) w2 else w2)
            in Some (KC705_SUCCESS, Freed, log_event Free_device w3))"

text \<open>
  The operating system as \<open>kc705_open_device\<close> meets it (the Linux build):
  \<open>kc705_enumerate_devices\<close> is the platform's discovery, giving the count
  and the array it filled (by index: an index outside the filled part reads whatever the
  stack holds there); \<open>os_open\<close> is \<^verbatim>\<open>open(path, O_RDWR | O_SYNC)\<close>; \<open>os_mmap fd len\<close> is
  \<^verbatim>\<open>mmap(NULL, len, PROT_READ | PROT_WRITE, MAP_SHARED, fd, 0)\<close>; \<open>os_malloc\<close> says
  whether \<^verbatim>\<open>malloc\<close> succeeds.
\<close>

record os =
  kc705_enumerate_devices :: "int \<Rightarrow> int \<times> (int \<Rightarrow> string)"
  os_open :: "string \<Rightarrow> int"
  os_mmap :: "int \<Rightarrow> nat \<Rightarrow> ptr"
  os_malloc :: bool

definition map_pci_device :: "os \<Rightarrow> kc705_device \<Rightarrow> string \<Rightarrow> int \<times> kc705_device" where
  "map_pci_device env device path =
     (let fd = os_open env (path @ ''/resource0'');
          d1 = device\<lparr>pci_fd := fd\<rparr>
      in if fd < 0 then (KC705_ERROR, d1)
         else
           let d2 = d1\<lparr>reg_base := os_mmap env fd 4096\<rparr>
           in if reg_base d2 = MAP_FAILED then (KC705_ERROR, d2)
              else
                let mem_fd = os_open env (path @ ''/resource1'')
                in if mem_fd \<ge> 0
                   then (KC705_SUCCESS, d2\<lparr>mem_base := os_mmap env mem_fd 65536\<rparr>)
                   else (KC705_SUCCESS, d2))"

definition zeroed_device :: kc705_device where
  "zeroed_device =
     \<lparr>pci_fd = 0, reg_base = NULL, mem_base = NULL, bar_size = replicate 6 0,
      is_open = False, device_id = 0, device_path = []\<rparr>"

definition kc705_open_device :: "os \<Rightarrow> int \<Rightarrow> kc705_device option" where
  "kc705_open_device env device_index =
     (case kc705_enumerate_devices env KC705_MAX_DEVICES of
        (num_devices, device_paths) \<Rightarrow>
          if num_devices = 0 then None
          else if device_index \<ge> num_devices then None
          else if \<not> os_malloc env then None
          else
            let device = zeroed_device\<lparr>device_path := device_paths device_index\<rparr>
            in case map_pci_device env device (device_path device) of
                 (rc, d) \<Rightarrow>
                   if rc \<noteq> KC705_SUCCESS then None
                   else Some (d\<lparr>is_open := True, device_id := of_int device_index\<rparr>))"

definition kc705_open :: "os \<Rightarrow> kc705_device option" where
  "kc705_open env = kc705_open_device env 0"

section \<open>Notions the properties are stated with\<close>


text \<open>
  A handle that can reach the device: the flag is set and the register window is mapped;
  and one that has the data window as well.
\<close>

definition reg_mapped :: "kc705_device \<Rightarrow> bool" where
  "reg_mapped d = (is_open d \<and> reg_base d = Mapped)"

definition fully_mapped :: "kc705_device \<Rightarrow> bool" where
  "fully_mapped d = (is_open d \<and> reg_base d = Mapped \<and> mem_base d = Mapped)"

text \<open>What a call returned, without the world; and the log it left.\<close>

definition outcome :: "('a \<times> 'b \<times> world) option \<Rightarrow> ('a \<times> 'b) option" where
  "outcome x = map_option (\<lambda>(ret, y, w). (ret, y)) x"

definition final_trace :: "('a \<times> 'b \<times> world) option \<Rightarrow> event list option" where
  "final_trace x = map_option (\<lambda>(ret, y, w). trace w) x"

text \<open>
  One round of the polling loop that did not end it, on a handle whose register window is
  mapped (the status read, then the sleep), and what the check after \<open>k\<close> such rounds
  reports.
\<close>

definition poll_round :: "world \<Rightarrow> world" where
  "poll_round w = usleep 1000 (log_event (Reg_read REG_STATUS (regs w REG_STATUS)) w)"

definition done_at :: "nat \<Rightarrow> world \<Rightarrow> bool" where
  "done_at k w = (regs ((poll_round ^^ k) w) REG_STATUS AND STAT_DONE \<noteq> 0)"

text \<open>The events polling may leave in the log: reads of the status register and 1 ms sleeps.\<close>

fun polling_event :: "event \<Rightarrow> bool" where
  "polling_event (Reg_read offset v) = (offset = REG_STATUS)"
| "polling_event (Usleep us) = (us = 1000)"
| "polling_event _ = False"

text \<open>
  Word \<open>k\<close> of the result record where the driver looks for it on this handle: in the
  data window when \<open>mem_base\<close> is not null, else in the register window.
\<close>

definition result_word :: "kc705_device \<Rightarrow> world \<Rightarrow> nat \<Rightarrow> u32" where
  "result_word d w k =
     (if mem_base d \<noteq> NULL then load32 (mem w) (KC705_RESULT_BASE + 4 * k)
      else regs w (of_nat (KC705_RESULT_BASE + 4 * k)))"

text \<open>The log of the three reads from the data window.\<close>

definition result_reads :: "kc705_device \<Rightarrow> world \<Rightarrow> event list" where
  "result_reads d w =
     map (\<lambda>k. Mem_read (KC705_RESULT_BASE + 4 * k) (result_word d w k)) [0, 1, 2]"

text \<open>The record \<open>kc705_get_result\<close> fills in from the world in which DONE was seen.\<close>

definition filled_result :: "kc705_device \<Rightarrow> world \<Rightarrow> classification_result" where
  "filled_result d w =
     \<lparr>class_id = result_word d w 0 mod NUM_CLASSES,
      confidence = real (unat (result_word d w 1)) / 10000,
      processing_time_us = result_word d w 2,
      valid = True\<rparr>"

text \<open>
  The world in which \<open>kc705_infer\<close> starts to poll on a handle with both windows: after
  the copy into the data window, the write of the size and the write of START | IRQ_EN.
\<close>

definition reg_written :: "u32 \<Rightarrow> u32 \<Rightarrow> world \<Rightarrow> world" where
  "reg_written offset v w = log_event (Reg_write offset v) (w\<lparr>regs := (regs w)(offset := v)\<rparr>)"

definition started :: "(nat \<Rightarrow> u8) \<Rightarrow> nat \<Rightarrow> world \<Rightarrow> world" where
  "started buf sz w =
     reg_written REG_CONTROL (CTRL_START OR CTRL_IRQ_EN)
       (reg_written REG_IMAGE_SIZE (of_nat sz) (memcpy_image buf sz w))"

text \<open>What \<open>kc705_close\<close> releases, in order.\<close>

definition close_events :: "kc705_device \<Rightarrow> event list" where
  "close_events d =
     (if reg_base d = Mapped then [Munmap_reg] else [])
     @ (if mem_base d = Mapped then [Munmap_mem] else [])
     @ (if pci_fd d \<ge> 0 then [Close_fd (pci_fd d)] else [])
     @ [Free_device]"



text \<open>
  Two worlds that differ at most in the ERROR bit of the status register, now and
  whatever the device does later, and in the value of that bit in the logged status reads.
\<close>

definition hide_error :: "(u32 \<Rightarrow> u32) \<Rightarrow> u32 \<Rightarrow> u32" where
  "hide_error r = r(REG_STATUS := r REG_STATUS OR STAT_ERROR)"

fun hide_error_event :: "event \<Rightarrow> event" where
  "hide_error_event (Reg_read offset v) =
     (if offset = REG_STATUS then Reg_read offset (v OR STAT_ERROR) else Reg_read offset v)"
| "hide_error_event e = e"

definition hw_up_to_error ::
  "(nat \<Rightarrow> windows \<Rightarrow> windows) \<Rightarrow> (nat \<Rightarrow> windows \<Rightarrow> windows) \<Rightarrow> bool" where
  "hw_up_to_error h h' =
     (\<forall>t r m r'. hide_error r = hide_error r' \<longrightarrow>
        hide_error (fst (h t (r, m))) = hide_error (fst (h' t (r', m)))
        \<and> snd (h t (r, m)) = snd (h' t (r', m)))"

definition same_up_to_error :: "world \<Rightarrow> world \<Rightarrow> bool" where
  "same_up_to_error w w' =
     (hide_error (regs w) = hide_error (regs w') \<and> mem w = mem w' \<and> now w = now w'
      \<and> map hide_error_event (trace w) = map hide_error_event (trace w')
      \<and> hw_up_to_error (hw w) (hw w'))"

text \<open>
  Two calls that end alike up to that bit: neither returns, or both return the same value
  and the same result record and leave worlds that differ at most in the bit.
\<close>

definition same_outcome ::
  "('a \<times> 'b \<times> world) option \<Rightarrow> ('a \<times> 'b \<times> world) option \<Rightarrow> bool" where
  "same_outcome x y =
     (case (x, y) of
        (None, None) \<Rightarrow> True
      | (Some (ret, res, w), Some (ret', res', w')) \<Rightarrow>
          ret = ret' \<and> res = res' \<and> same_up_to_error w w'
      | _ \<Rightarrow> False)"

text \<open>The same for a call that hands back a value and nothing else.\<close>

definition same_return :: "('a \<times> world) option \<Rightarrow> ('a \<times> world) option \<Rightarrow> bool" where
  "same_return x y =
     (case (x, y) of
        (None, None) \<Rightarrow> True
      | (Some (ret, w), Some (ret', w')) \<Rightarrow> ret = ret' \<and> same_up_to_error w w'
      | _ \<Rightarrow> False)"

subsection \<open>Concrete devices, worlds and inputs\<close>

definition demo_device :: kc705_device where
  "demo_device =
     \<lparr>pci_fd = 3, reg_base = Mapped, mem_base = Mapped, bar_size = replicate 6 0,
      is_open = True, device_id = 0, device_path = ''/sys/bus/pci/devices/0000:01:00.0''\<rparr>"

text \<open>The same device without the data window: every transfer goes through registers.\<close>

definition demo_device_regs_only :: kc705_device where
  "demo_device_regs_only = demo_device\<lparr>mem_base := NULL\<rparr>"

text \<open>The same device when the second \<^verbatim>\<open>mmap\<close> of \<open>map_pci_device\<close> has failed.\<close>

definition demo_device_map_failed :: kc705_device where
  "demo_device_map_failed = demo_device\<lparr>mem_base := MAP_FAILED\<rparr>"

text \<open>A device that stays as it is while the driver sleeps.\<close>

definition static_hw :: "nat \<Rightarrow> windows \<Rightarrow> windows" where
  "static_hw t x = x"

text \<open>A device that never reports DONE.\<close>

definition idle_world :: world where
  "idle_world = \<lparr>regs = (\<lambda>a. 0), mem = (\<lambda>a. 0), now = 0, hw = static_hw, trace = []\<rparr>"

text \<open>
  The simulated device of the scenario: STATUS = DONE and the result record
  (42, 8734, 1500), little-endian in the data window.
\<close>

definition done_world :: world where
  "done_world =
     \<lparr>regs = (\<lambda>a. 0)(REG_STATUS := STAT_DONE),
      mem = (\<lambda>a. 0)(0x2000 := 0x2A, 0x2004 := 0x1E, 0x2005 := 0x22, 0x2008 := 0xDC, 0x2009 := 0x05),
      now = 0, hw = static_hw, trace = []\<rparr>"

text \<open>A device that reports DONE together with ERROR, and a confidence word of 20000.\<close>

definition garbage_world :: world where
  "garbage_world =
     \<lparr>regs = (\<lambda>a. 0)(REG_STATUS := STAT_DONE OR STAT_ERROR),
      mem = (\<lambda>a. 0)(0x2000 := 0xFF, 0x2001 := 0xFF, 0x2004 := 0x20, 0x2005 := 0x4E),
      now = 0, hw = static_hw, trace = []\<rparr>"

text \<open>The same device with the ERROR bit clear.\<close>

definition done_only_world :: world where
  "done_only_world = garbage_world\<lparr>regs := (regs garbage_world)(REG_STATUS := STAT_DONE)\<rparr>"

text \<open>A device that sets DONE once 5000 ms have passed, and not before.\<close>

definition late_hw :: "nat \<Rightarrow> windows \<Rightarrow> windows" where
  "late_hw t x = (if t \<ge> 5000000 then ((fst x)(REG_STATUS := STAT_DONE), snd x) else x)"

definition late_world :: world where
  "late_world = \<lparr>regs = (\<lambda>a. 0), mem = (\<lambda>a. 0), now = 0, hw = late_hw, trace = []\<rparr>"

text \<open>A device that sets DONE and ERROR together once 5000 ms have passed.\<close>

definition late_error_hw :: "nat \<Rightarrow> windows \<Rightarrow> windows" where
  "late_error_hw t x =
     (if t \<ge> 5000000 then ((fst x)(REG_STATUS := STAT_DONE OR STAT_ERROR), snd x) else x)"

definition late_error_world :: world where
  "late_error_world =
     \<lparr>regs = (\<lambda>a. 0), mem = (\<lambda>a. 0), now = 0, hw = late_error_hw, trace = []\<rparr>"

text \<open>A result record left over from an earlier, successful inference.\<close>

definition stale_result :: classification_result where
  "stale_result = \<lparr>class_id = 7, confidence = 1 / 2, processing_time_us = 900, valid = True\<rparr>"

definition blank_image :: "nat \<Rightarrow> u8" where
  "blank_image i = 128"

text \<open>Five image files of which the third does not exist; the others hold 224 * 224 * 3 bytes.\<close>

definition batch_names :: "string list" where
  "batch_names = [''image1.raw'', ''image2.raw'', ''image3.raw'', ''image4.raw'', ''image5.raw'']"

definition batch_files :: files where
  "batch_files name =
     (if name \<in> {''image1.raw'', ''image2.raw'', ''image4.raw'', ''image5.raw''}
      then Some (replicate 150528 128) else None)"




text \<open>
  One device whose \<^verbatim>\<open>resource1\<close> cannot be opened, and one whose \<^verbatim>\<open>resource1\<close> opens
  while the \<^verbatim>\<open>mmap\<close> of its 65536 bytes fails.
\<close>

definition no_bar1_os :: os where
  "no_bar1_os =
     \<lparr>kc705_enumerate_devices =
        (\<lambda>max_devices. (1, (\<lambda>i. if i = 0 then ''/sys/bus/pci/devices/0000:01:00.0'' else ''stack''))),
      os_open = (\<lambda>path. if path = ''/sys/bus/pci/devices/0000:01:00.0/resource1'' then - 1 else 3),
      os_mmap = (\<lambda>fd len. Mapped), os_malloc = True\<rparr>"

definition bar1_map_fails_os :: os where
  "bar1_map_fails_os =
     \<lparr>kc705_enumerate_devices =
        (\<lambda>max_devices. (1, (\<lambda>i. if i = 0 then ''/sys/bus/pci/devices/0000:01:00.0'' else ''stack''))),
      os_open = (\<lambda>path. 3),
      os_mmap = (\<lambda>fd len. if len = 65536 then MAP_FAILED else Mapped), os_malloc = True\<rparr>"

section \<open>Properties\<close>

subsection \<open>Basic facts\<close>

declare upload_words.simps [simp del]
declare poll.simps [simp del]

lemma log_fields [simp]:
  "regs (log_event e w) = regs w" "mem (log_event e w) = mem w" "now (log_event e w) = now w"
  "hw (log_event e w) = hw w" "trace (log_event e w) = trace w @ [e]"
  by (simp_all add: log_event_def)

lemma log_as_update: "log_event e w = w\<lparr>trace := trace w @ [e]\<rparr>"
  by (simp add: log_event_def)

lemma usleep_fields [simp]:
  "now (usleep us w) = now w + us" "hw (usleep us w) = hw w"
  "trace (usleep us w) = trace w @ [Usleep us]"
  "regs (usleep us w) = fst (hw w (now w + us) (regs w, mem w))"
  "mem (usleep us w) = snd (hw w (now w + us) (regs w, mem w))"
  by (simp_all add: usleep_def Let_def split: prod.splits)

lemma reg_written_fields [simp]:
  "regs (reg_written a v w) = (regs w)(a := v)" "mem (reg_written a v w) = mem w"
  "now (reg_written a v w) = now w" "hw (reg_written a v w) = hw w"
  "trace (reg_written a v w) = trace w @ [Reg_write a v]"
  by (simp_all add: reg_written_def)

lemma fully_mapped_reg [simp]: "fully_mapped d \<Longrightarrow> reg_mapped d"
  by (simp add: fully_mapped_def reg_mapped_def)

lemma in_reg_window_numeral [simp]:
  "in_reg_window REG_CONTROL" "in_reg_window REG_STATUS" "in_reg_window REG_IMAGE_SIZE"
  by (simp_all add: in_reg_window_def)

lemma read_reg_mapped:
  "reg_mapped d \<Longrightarrow> in_reg_window offset \<Longrightarrow>
   kc705_read_reg (Live d) offset v w =
     Some (KC705_SUCCESS, regs w offset, log_event (Reg_read offset (regs w offset)) w)"
  by (simp add: reg_mapped_def kc705_read_reg_def)

lemma write_reg_mapped:
  "reg_mapped d \<Longrightarrow> in_reg_window offset \<Longrightarrow>
   kc705_write_reg (Live d) offset v w = Some (KC705_SUCCESS, reg_written offset v w)"
  by (simp add: reg_mapped_def kc705_write_reg_def reg_written_def)

lemma write_reg_past_window:
  "reg_mapped d \<Longrightarrow> \<not> in_reg_window offset \<Longrightarrow> kc705_write_reg (Live d) offset v w = None"
  by (simp add: reg_mapped_def kc705_write_reg_def)

lemma read_reg_past_window:
  "reg_mapped d \<Longrightarrow> \<not> in_reg_window offset \<Longrightarrow> kc705_read_reg (Live d) offset v w = None"
  by (simp add: reg_mapped_def kc705_read_reg_def)

lemma is_done_mapped:
  "reg_mapped d \<Longrightarrow>
   kc705_is_done (Live d) w =
     Some (regs w REG_STATUS AND STAT_DONE \<noteq> 0, log_event (Reg_read REG_STATUS (regs w REG_STATUS)) w)"
  by (simp add: kc705_is_done_def read_reg_mapped)

text \<open>What \<open>kc705_is_done\<close> can answer at all, handle by handle.\<close>

lemma is_done_cases:
  "kc705_is_done device w =
     (case device of
        Null \<Rightarrow> Some (False, w)
      | Freed \<Rightarrow> None
      | Live d \<Rightarrow>
          if \<not> is_open d \<or> reg_base d = NULL then Some (False, w)
          else if reg_base d = MAP_FAILED then None
          else Some (regs w REG_STATUS AND STAT_DONE \<noteq> 0,
                     log_event (Reg_read REG_STATUS (regs w REG_STATUS)) w))"
  by (simp add: kc705_is_done_def kc705_read_reg_def split: handle.splits)

lemma is_done_true:
  "kc705_is_done device w = Some (True, w') \<Longrightarrow>
   \<exists>d. device = Live d \<and> reg_mapped d \<and> regs w REG_STATUS AND STAT_DONE \<noteq> 0
     \<and> w' = log_event (Reg_read REG_STATUS (regs w REG_STATUS)) w"
  by (cases device; cases "reg_base (case device of Live d \<Rightarrow> d)")
     (auto simp: is_done_cases reg_mapped_def split: if_splits)

subsection \<open>The polling loop\<close>

lemma poll_round_fields [simp]:
  "now (poll_round w) = now w + 1000"
  "hw (poll_round w) = hw w"
  "regs (poll_round w) = fst (hw w (now w + 1000) (regs w, mem w))"
  "mem (poll_round w) = snd (hw w (now w + 1000) (regs w, mem w))"
  "trace (poll_round w) = trace w @ [Reg_read REG_STATUS (regs w REG_STATUS), Usleep 1000]"
  by (simp_all add: poll_round_def)

lemma rounds_fields [simp]:
  "now ((poll_round ^^ k) w) = now w + 1000 * k"
  "hw ((poll_round ^^ k) w) = hw w"
  by (induction k) simp_all

lemma poll_mapped:
  "reg_mapped d \<Longrightarrow>
   poll (Live d) e w =
     (if \<not> done_at 0 w \<and> e < timeout_ms then poll (Live d) (e + 1) (poll_round w)
      else Some (e, log_event (Reg_read REG_STATUS (regs w REG_STATUS)) w))"
  by (simp add: poll.simps [of "Live d" e w] is_done_mapped done_at_def poll_round_def)

text \<open>Rounds that report "not done" are skipped one by one.\<close>

lemma poll_skip:
  "reg_mapped d \<Longrightarrow> (\<forall>j<k. \<not> done_at j w) \<Longrightarrow> e + k \<le> timeout_ms \<Longrightarrow>
   poll (Live d) e w = poll (Live d) (e + k) ((poll_round ^^ k) w)"
proof (induction k arbitrary: e w)
  case 0
  then show ?case by simp
next
  case (Suc k)
  have nd: "\<not> done_at 0 w" using Suc.prems(2) by auto
  have later: "\<forall>j<k. \<not> done_at j (poll_round w)"
  proof (intro allI impI)
    fix j assume "j < k"
    then have "\<not> done_at (Suc j) w" using Suc.prems(2) by simp
    then show "\<not> done_at j (poll_round w)"
      by (simp add: done_at_def funpow_swap1)
  qed
  have "poll (Live d) e w = poll (Live d) (e + 1) (poll_round w)"
    using nd Suc.prems(3) by (simp add: poll_mapped [OF Suc.prems(1), of e w])
  also have "\<dots> = poll (Live d) (e + 1 + k) ((poll_round ^^ k) (poll_round w))"
    using later Suc.prems(3) by (intro Suc.IH [OF Suc.prems(1)]) simp_all
  finally show ?case by (simp add: funpow_swap1)
qed

lemma poll_first_done:
  assumes "reg_mapped d" and "\<forall>j<k. \<not> done_at j w" and "done_at k w" and "k < timeout_ms"
  shows "poll (Live d) 0 w =
           Some (k, log_event (Reg_read REG_STATUS (regs ((poll_round ^^ k) w) REG_STATUS))
                      ((poll_round ^^ k) w))"
proof -
  have "done_at 0 ((poll_round ^^ k) w)" using assms(3) by (simp add: done_at_def)
  moreover have "poll (Live d) 0 w = poll (Live d) k ((poll_round ^^ k) w)"
    using poll_skip [OF assms(1,2), of 0] assms(4) by simp
  ultimately show ?thesis
    by (simp add: poll_mapped [OF assms(1), of k "(poll_round ^^ k) w"])
qed

lemma poll_never_done:
  assumes "reg_mapped d" and "\<forall>j<timeout_ms. \<not> done_at j w"
  shows "poll (Live d) 0 w =
           Some (timeout_ms,
                 log_event (Reg_read REG_STATUS (regs ((poll_round ^^ timeout_ms) w) REG_STATUS))
                   ((poll_round ^^ timeout_ms) w))"
proof -
  have "poll (Live d) 0 w = poll (Live d) timeout_ms ((poll_round ^^ timeout_ms) w)"
    using poll_skip [OF assms, of 0] by simp
  then show ?thesis
    by (simp add: poll_mapped [OF assms(1), of timeout_ms "(poll_round ^^ timeout_ms) w"])
qed

text \<open>What holds when the loop has ended, whatever the device did.\<close>

lemma poll_in_budget:
  "poll device e w = Some (e', w') \<Longrightarrow> e' < timeout_ms \<Longrightarrow>
   \<exists>d. device = Live d \<and> reg_mapped d \<and> regs w' REG_STATUS AND STAT_DONE \<noteq> 0"
proof (induction "timeout_ms - e" arbitrary: e w rule: less_induct)
  case (less e w)
  from less.prems(1) obtain fin w1 where d: "kc705_is_done device w = Some (fin, w1)"
    by (cases "kc705_is_done device w") (auto simp: poll.simps [of device e w])
  show ?case
  proof (cases "\<not> fin \<and> e < timeout_ms")
    case True
    then have "poll device (e + 1) (usleep 1000 w1) = Some (e', w')"
      using less.prems(1) d by (simp add: poll.simps [of device e w])
    moreover have "timeout_ms - (e + 1) < timeout_ms - e" using True by linarith
    ultimately show ?thesis using less.hyps less.prems(2) by blast
  next
    case False
    then have e: "e' = e" "w' = w1"
      using less.prems(1) d by (auto simp: poll.simps [of device e w])
    with False less.prems(2) have "fin" by simp
    with d e show ?thesis using is_done_true [of device w w1] by auto
  qed
qed

lemma poll_trace:
  "poll device e w = Some (e', w') \<Longrightarrow>
   \<exists>es. trace w' = trace w @ es \<and> list_all polling_event es"
proof (induction "timeout_ms - e" arbitrary: e w rule: less_induct)
  case (less e w)
  from less.prems(1) obtain fin w1 where d: "kc705_is_done device w = Some (fin, w1)"
    by (cases "kc705_is_done device w") (auto simp: poll.simps [of device e w])
  then have t1: "\<exists>es. trace w1 = trace w @ es \<and> list_all polling_event es"
    by (auto simp: is_done_cases split: handle.splits if_splits)
  show ?case
  proof (cases "\<not> fin \<and> e < timeout_ms")
    case True
    then have "poll device (e + 1) (usleep 1000 w1) = Some (e', w')"
      using less.prems(1) d by (simp add: poll.simps [of device e w])
    moreover have "timeout_ms - (e + 1) < timeout_ms - e" using True by linarith
    ultimately obtain es where "trace w' = trace (usleep 1000 w1) @ es" "list_all polling_event es"
      using less.hyps by blast
    with t1 show ?thesis by auto
  next
    case False
    then have "w' = w1"
      using less.prems(1) d by (auto simp: poll.simps [of device e w])
    with t1 show ?thesis by simp
  qed
qed

subsection \<open>Result retrieval\<close>

text \<open>The three tests of \<^verbatim>\<open>if (!device || !device->is_open || !result)\<close> as one.\<close>

lemma get_result_guard:
  "kc705_get_result device result w =
     (case device of
        Null \<Rightarrow> Some (KC705_INVALID_PARAM, result, w)
      | Freed \<Rightarrow> None
      | Live d \<Rightarrow>
          if \<not> is_open d \<or> result = None then Some (KC705_INVALID_PARAM, result, w)
          else
            (case poll device 0 w of
               None \<Rightarrow> None
             | Some (elapsed_ms, w1) \<Rightarrow>
                 if elapsed_ms \<ge> timeout_ms then Some (KC705_TIMEOUT, result, w1)
                 else
                   (case read_result_words device d w1 of
                      None \<Rightarrow> None
                    | Some (cid, confidence_raw, timing, w2) \<Rightarrow>
                        Some (KC705_SUCCESS,
                              Some \<lparr>class_id = cid mod NUM_CLASSES,
                                    confidence = real (unat confidence_raw) / 10000,
                                    processing_time_us = timing,
                                    valid = True\<rparr>,
                              w2))))"
  by (simp add: kc705_get_result_def split: handle.splits option.splits)

lemma result_word_log [simp]: "result_word d (log_event e w) k = result_word d w k"
  by (simp add: result_word_def)

lemma result_word_trace [simp]: "result_word d (w\<lparr>trace := es\<rparr>) k = result_word d w k"
  by (simp add: result_word_def)

lemma filled_result_trace [simp]: "filled_result d (w\<lparr>trace := es\<rparr>) = filled_result d w"
  by (simp add: filled_result_def)

lemma filled_result_log [simp]: "filled_result d (log_event e w) = filled_result d w"
  by (simp add: filled_result_def)

lemma result_offsets_past_window:
  "\<not> in_reg_window (of_nat (KC705_RESULT_BASE + 0))"
  by (simp add: in_reg_window_def)

lemma read_result_words_mapped:
  assumes "fully_mapped d"
  shows "read_result_words (Live d) d w =
           Some (result_word d w 0, result_word d w 1, result_word d w 2,
                 w\<lparr>trace := trace w @ result_reads d w\<rparr>)"
  using assms
  by (simp add: fully_mapped_def read_result_words_def result_word_def result_reads_def Let_def
      log_as_update)

text \<open>
  Without a data window the first of the three register reads is at offset 0x2000, past
  the 4096 bytes of the register window: the reads return on no handle.
\<close>

lemma read_result_words_returns:
  assumes "reg_mapped d" and "read_result_words (Live d) d w = Some x"
  shows "mem_base d = Mapped"
proof (cases "mem_base d")
  case NULL
  then show ?thesis
    using assms read_reg_past_window [OF assms(1) result_offsets_past_window]
    by (simp add: read_result_words_def)
next
  case MAP_FAILED
  then show ?thesis using assms(2) by (simp add: read_result_words_def)
next
  case Mapped
  then show ?thesis .
qed

lemma get_result_mapped:
  assumes "fully_mapped d"
  shows "kc705_get_result (Live d) (Some r) w =
           (case poll (Live d) 0 w of
              None \<Rightarrow> None
            | Some (e, w1) \<Rightarrow>
                if e \<ge> timeout_ms then Some (KC705_TIMEOUT, Some r, w1)
                else Some (KC705_SUCCESS, Some (filled_result d w1),
                           w1\<lparr>trace := trace w1 @ result_reads d w1\<rparr>))"
  using assms
  by (simp add: get_result_guard read_result_words_mapped filled_result_def fully_mapped_def
      split: option.splits)

lemma get_result_first_done:
  assumes "fully_mapped d" and "\<forall>j<k. \<not> done_at j w" and "done_at k w" and "k < timeout_ms"
  shows "kc705_get_result (Live d) (Some r) w =
           Some (KC705_SUCCESS, Some (filled_result d ((poll_round ^^ k) w)),
                 ((poll_round ^^ k) w)
                   \<lparr>trace := trace ((poll_round ^^ k) w)
                      @ Reg_read REG_STATUS (regs ((poll_round ^^ k) w) REG_STATUS)
                      # result_reads d ((poll_round ^^ k) w)\<rparr>)"
  using assms(4)
  by (simp add: get_result_mapped [OF assms(1)]
      poll_first_done [OF fully_mapped_reg [OF assms(1)] assms(2,3,4)]
      log_as_update result_reads_def)

lemma get_result_never_done:
  assumes "reg_mapped d" and "\<forall>j<timeout_ms. \<not> done_at j w"
  shows "kc705_get_result (Live d) (Some r) w =
           Some (KC705_TIMEOUT, Some r,
                 log_event (Reg_read REG_STATUS (regs ((poll_round ^^ timeout_ms) w) REG_STATUS))
                   ((poll_round ^^ timeout_ms) w))"
  using assms(1)
  by (simp add: get_result_guard poll_never_done [OF assms] reg_mapped_def)

text \<open>Every way \<open>kc705_get_result\<close> can return.\<close>

lemma get_result_returns:
  assumes "kc705_get_result device result w = Some (ret, result', w')"
  shows "(ret = KC705_INVALID_PARAM \<and> result' = result \<and> w' = w)
       \<or> (ret = KC705_TIMEOUT \<and> result' = result
            \<and> (\<exists>es. trace w' = trace w @ es \<and> list_all polling_event es))
       \<or> (ret = KC705_SUCCESS
            \<and> (\<exists>d w1. device = Live d \<and> fully_mapped d
                  \<and> regs w1 REG_STATUS AND STAT_DONE \<noteq> 0
                  \<and> (\<exists>es. trace w1 = trace w @ es \<and> list_all polling_event es)
                  \<and> result' = Some (filled_result d w1)
                  \<and> w' = w1\<lparr>trace := trace w1 @ result_reads d w1\<rparr>))"
proof (cases device)
  case Null
  with assms show ?thesis by (simp add: get_result_guard)
next
  case Freed
  with assms show ?thesis by (simp add: get_result_guard)
next
  case (Live d)
  show ?thesis
  proof (cases "\<not> is_open d \<or> result = None")
    case True
    with assms Live show ?thesis by (auto simp: get_result_guard)
  next
    case False
    with assms Live obtain e w1 where p: "poll (Live d) 0 w = Some (e, w1)"
      by (cases "poll (Live d) 0 w") (auto simp: get_result_guard)
    show ?thesis
    proof (cases "e \<ge> timeout_ms")
      case True
      with assms Live False p poll_trace [OF p] show ?thesis
        by (auto simp: get_result_guard)
    next
      case e: False
      then have "e < timeout_ms" by simp
      from poll_in_budget [OF p this]
      have rm: "reg_mapped d" and dn: "regs w1 REG_STATUS AND STAT_DONE \<noteq> 0" by auto
      from assms Live False p e obtain x where x: "read_result_words (Live d) d w1 = Some x"
        by (cases "read_result_words (Live d) d w1") (auto simp: get_result_guard)
      from read_result_words_returns [OF rm x] rm have fm: "fully_mapped d"
        by (simp add: fully_mapped_def reg_mapped_def)
      from assms Live False p e have "ret = KC705_SUCCESS"
        and "result' = Some (filled_result d w1)"
        and "w' = w1\<lparr>trace := trace w1 @ result_reads d w1\<rparr>"
        by (auto simp: get_result_guard read_result_words_mapped [OF fm] filled_result_def)
      with Live fm dn poll_trace [OF p] show ?thesis by auto
    qed
  qed
qed

subsection \<open>Worlds whose device stands still\<close>

lemma static_rounds:
  "hw w = static_hw \<Longrightarrow>
   regs ((poll_round ^^ k) w) = regs w \<and> mem ((poll_round ^^ k) w) = mem w"
  by (induction k) (simp_all add: static_hw_def)

lemma static_done_at:
  "hw w = static_hw \<Longrightarrow> done_at k w = (regs w REG_STATUS AND STAT_DONE \<noteq> 0)"
  by (simp add: done_at_def static_rounds)

lemma idle_never_done: "\<not> done_at k idle_world"
  by (simp add: static_done_at idle_world_def)

lemma demo_device_mapped [simp]:
  "fully_mapped demo_device" "reg_mapped demo_device" "reg_mapped demo_device_regs_only"
  "reg_mapped demo_device_map_failed" "is_open demo_device"
  by (simp_all add: fully_mapped_def reg_mapped_def demo_device_def demo_device_regs_only_def
      demo_device_map_failed_def)

lemma get_result_done_at_entry:
  assumes "fully_mapped d" and "regs w REG_STATUS AND STAT_DONE \<noteq> 0"
  shows "kc705_get_result (Live d) (Some r) w =
           Some (KC705_SUCCESS, Some (filled_result d w),
                 w\<lparr>trace := trace w @ Reg_read REG_STATUS (regs w REG_STATUS) # result_reads d w\<rparr>)"
proof -
  have "done_at 0 w" using assms(2) by (simp add: done_at_def)
  from get_result_first_done [OF assms(1) _ this, of r] show ?thesis by simp
qed

subsection \<open>The device that finishes as the budget runs out\<close>

lemma late_rounds:
  "k \<le> timeout_ms \<Longrightarrow>
   regs ((poll_round ^^ k) late_world) REG_STATUS = (if k = timeout_ms then STAT_DONE else 0)"
proof (induction k)
  case 0
  then show ?case by (simp add: late_world_def)
next
  case (Suc k)
  then have "regs ((poll_round ^^ k) late_world) REG_STATUS = 0" by simp
  moreover have "hw late_world = late_hw" and "now late_world = 0"
    by (simp_all add: late_world_def)
  ultimately show ?case using Suc.prems by (auto simp: late_hw_def)
qed

lemma late_done_at: "k \<le> timeout_ms \<Longrightarrow> done_at k late_world = (k = timeout_ms)"
  by (simp add: done_at_def late_rounds)

text \<open>
  C1. The device of \<open>late_world\<close> sets DONE once 5000 ms have passed. \<open>kc705_get_result\<close>
  sleeps 5000 times, reads the status once more, finds DONE there, and returns
  \<open>KC705_TIMEOUT\<close> with the caller's record untouched: the last thing in its log is the read
  of a status word with DONE set. The 5001st check is a check that reports DONE, and it does
  not lead to the result being read.
\<close>

theorem get_result_done_at_last_check:
  "outcome (kc705_get_result (Live demo_device) (Some stale_result) late_world)
     = Some (KC705_TIMEOUT, Some stale_result)
   \<and> map_option last (final_trace (kc705_get_result (Live demo_device) (Some stale_result) late_world))
     = Some (Reg_read REG_STATUS STAT_DONE)"
proof -
  have "\<forall>j<timeout_ms. \<not> done_at j late_world"
    by (simp add: late_done_at)
  from get_result_never_done [OF demo_device_mapped(2) this, of stale_result]
  show ?thesis
    using late_rounds [of timeout_ms] by (simp add: outcome_def final_trace_def)
qed

text \<open>
  What does hold of the loop, for every world (the lemmas \<open>get_result_first_done\<close>,
  \<open>get_result_never_done\<close> and \<open>get_result_returns\<close> above): on a handle with both windows,
  when the first check to report DONE comes after fewer than 5000 sleeps, the three result
  words are read from the data window and \<open>KC705_SUCCESS\<close> is returned; when none of the
  first 5000 checks reports DONE, \<open>KC705_TIMEOUT\<close> is returned and the log holds status
  reads and 1 ms sleeps only. On a handle without data window the three register reads
  are at offsets 0x2000, 0x2004 and 0x2008, past the register window
  (\<open>read_result_words_returns\<close>).
\<close>

subsection \<open>Upload and start\<close>

lemma upload_too_big:
  assumes "is_open d" and "sz > 4096"
  shows "kc705_upload_image (Live d) (Some buf) sz w = Some (KC705_INVALID_PARAM, w)"
  using assms by (simp add: kc705_upload_image_def)

lemma upload_mapped:
  assumes "fully_mapped d" and "sz \<le> 4096"
  shows "kc705_upload_image (Live d) (Some buf) sz w =
           Some (KC705_SUCCESS, reg_written REG_IMAGE_SIZE (of_nat sz) (memcpy_image buf sz w))"
proof -
  have "reg_mapped d" by (rule fully_mapped_reg [OF assms(1)])
  moreover have "in_reg_window REG_IMAGE_SIZE" by (simp add: in_reg_window_def)
  ultimately have "kc705_write_reg (Live d) REG_IMAGE_SIZE v w1 =
      Some (KC705_SUCCESS, reg_written REG_IMAGE_SIZE v w1)" for v w1
    by (simp add: write_reg_mapped reg_written_def)
  then show ?thesis
    using assms by (simp add: kc705_upload_image_def fully_mapped_def)
qed

lemma upload_size_register:
  assumes "fully_mapped d" and "sz \<le> 4096"
    and "kc705_upload_image (Live d) (Some buf) sz w = Some (ret, w')"
  shows "ret = KC705_SUCCESS \<and> unat (regs w' REG_IMAGE_SIZE) = sz"
proof -
  have "unat (of_nat sz :: u32) = sz"
    using assms(2) by (simp add: unat_of_nat)
  then show ?thesis
    using assms(3) by (auto simp: upload_mapped [OF assms(1,2)] reg_written_def log_as_update)
qed

text \<open>
  The first write of the register fallback is at offset 0x1000, the first byte past the
  4096 bytes mapped at \<open>reg_base\<close>.
\<close>

lemma upload_words_past_window:
  assumes "reg_mapped d" and "0 < sz"
  shows "upload_words (Live d) buf sz 0 w = None"
proof -
  have "\<not> in_reg_window (of_nat (KC705_IMAGE_BASE + 0))"
    by (simp add: in_reg_window_def)
  from write_reg_past_window [OF assms(1) this] show ?thesis
    using assms(2) by (simp add: upload_words.simps [of _ _ sz 0])
qed

lemma upload_regs_only:
  assumes "reg_mapped d" and "mem_base d = NULL" and "0 < sz" and "sz \<le> 4096"
  shows "kc705_upload_image (Live d) (Some buf) sz w = None"
  using assms
  by (simp add: kc705_upload_image_def upload_words_past_window reg_mapped_def)

lemma upload_map_failed:
  assumes "is_open d" and "mem_base d = MAP_FAILED" and "sz \<le> 4096"
  shows "kc705_upload_image (Live d) (Some buf) sz w = None"
  using assms by (simp add: kc705_upload_image_def)

lemma start_mapped:
  assumes "reg_mapped d"
  shows "kc705_start_inference (Live d) w =
           Some (KC705_SUCCESS, reg_written REG_CONTROL (CTRL_START OR CTRL_IRQ_EN) w)"
proof -
  have "in_reg_window REG_CONTROL" by (simp add: in_reg_window_def)
  then show ?thesis
    using assms
    by (simp add: kc705_start_inference_def write_reg_mapped reg_written_def reg_mapped_def)
qed

lemma infer_mapped:
  assumes "fully_mapped d" and "sz \<le> 4096"
  shows "kc705_infer (Live d) (Some buf) sz result w =
           kc705_get_result (Live d) result (started buf sz w)"
  by (simp add: kc705_infer_def upload_mapped [OF assms] start_mapped [OF fully_mapped_reg [OF assms(1)]]
      started_def)

lemma infer_too_big:
  assumes "is_open d" and "sz > 4096"
  shows "kc705_infer (Live d) (Some buf) sz result w = Some (KC705_INVALID_PARAM, result, w)"
  by (simp add: kc705_infer_def upload_too_big [OF assms])

lemma started_fields:
  "regs (started buf sz w) REG_STATUS = regs w REG_STATUS"
  "hw (started buf sz w) = hw w"
  "now (started buf sz w) = now w"
  "trace (started buf sz w) =
     trace w @ [Mem_copy KC705_IMAGE_BASE (map buf [0..<sz]), Reg_write REG_IMAGE_SIZE (of_nat sz),
                Reg_write REG_CONTROL (CTRL_START OR CTRL_IRQ_EN)]"
  by (simp_all add: started_def reg_written_def memcpy_image_def log_as_update)

lemma started_result_word:
  assumes "mem_base d \<noteq> NULL" and "sz \<le> 4096"
  shows "result_word d (started buf sz w) k = result_word d w k"
  using assms
  by (simp add: result_word_def started_def reg_written_def memcpy_image_def log_as_update
      load32_def)

lemma started_filled_result:
  assumes "fully_mapped d" and "sz \<le> 4096"
  shows "filled_result d (started buf sz w) = filled_result d w"
proof -
  have "mem_base d \<noteq> NULL" using assms(1) by (simp add: fully_mapped_def)
  then show ?thesis by (simp add: filled_result_def started_result_word assms(2))
qed

text \<open>Every way \<open>kc705_infer\<close> can return: one of its three steps returned that way.\<close>

lemma infer_returns:
  assumes "kc705_infer device image_data sz result w = Some (ret, result', w')"
  shows "(ret \<noteq> KC705_SUCCESS \<and> result' = result
            \<and> (kc705_upload_image device image_data sz w = Some (ret, w')
               \<or> (\<exists>w1. kc705_start_inference device w1 = Some (ret, w'))
               \<or> (\<exists>w2. kc705_get_result device result w2 = Some (ret, result', w'))))
       \<or> (ret = KC705_SUCCESS \<and> (\<exists>w2. kc705_get_result device result w2 = Some (ret, result', w')))"
proof -
  from assms obtain r1 w1 where u: "kc705_upload_image device image_data sz w = Some (r1, w1)"
    by (cases "kc705_upload_image device image_data sz w") (auto simp: kc705_infer_def)
  show ?thesis
  proof (cases "r1 = KC705_SUCCESS")
    case False
    with assms u show ?thesis by (auto simp: kc705_infer_def)
  next
    case True
    with assms u obtain r2 w2 where s: "kc705_start_inference device w1 = Some (r2, w2)"
      by (cases "kc705_start_inference device w1") (auto simp: kc705_infer_def)
    show ?thesis
    proof (cases "r2 = KC705_SUCCESS")
      case False
      with assms u True s show ?thesis by (auto simp: kc705_infer_def)
    next
      case r2: True
      with assms u True s have g: "kc705_get_result device result w2 = Some (ret, result', w')"
        by (simp add: kc705_infer_def)
      from get_result_returns [OF g] g show ?thesis by (cases "ret = KC705_SUCCESS") auto
    qed
  qed
qed

subsection \<open>The scenario with DONE preset\<close>

lemma done_world_words:
  "result_word demo_device done_world 0 = 42"
  "result_word demo_device done_world 1 = 8734"
  "result_word demo_device done_world 2 = 1500"
  "regs done_world REG_STATUS AND STAT_DONE \<noteq> 0"
  by (simp_all add: result_word_def demo_device_def done_world_def load32_def)

text \<open>
  The scenario as the specification words it: a 150528-byte buffer on that device. The
  call is turned away by the size check of \<open>kc705_upload_image\<close>; nothing is written to
  the device or to the record.
\<close>

theorem infer_full_image_rejected:
  "kc705_infer (Live demo_device) (Some blank_image) 150528 (Some stale_result) done_world
     = Some (KC705_INVALID_PARAM, Some stale_result, done_world)"
  by (simp add: infer_too_big)

text \<open>
  C2, as the code has it. On an open handle with both windows mapped, whose status
  register has DONE set and whose result record in the data window holds (42, 8734, 1500):
  \<open>kc705_infer\<close> with a buffer of at most 4096 bytes returns \<open>KC705_SUCCESS\<close> and the
  record (42, 0.8734, 1500, valid); with a larger buffer, 150528 bytes among them, it
  returns \<open>KC705_INVALID_PARAM\<close> and leaves the record and the device as they were.
\<close>

theorem infer_preset_done:
  assumes "fully_mapped d"
    and "regs w REG_STATUS AND STAT_DONE \<noteq> 0"
    and "result_word d w 0 = 42" and "result_word d w 1 = 8734" and "result_word d w 2 = 1500"
  shows "(sz \<le> 4096 \<longrightarrow>
            outcome (kc705_infer (Live d) (Some buf) sz (Some r) w)
              = Some (KC705_SUCCESS,
                      Some \<lparr>class_id = 42, confidence = 8734 / 10000, processing_time_us = 1500,
                            valid = True\<rparr>))
       \<and> (sz > 4096 \<longrightarrow>
            kc705_infer (Live d) (Some buf) sz (Some r) w = Some (KC705_INVALID_PARAM, Some r, w))"
proof (intro conjI impI)
  assume sz: "sz \<le> 4096"
  have "regs (started buf sz w) REG_STATUS AND STAT_DONE \<noteq> 0"
    using assms(2) by (simp add: started_fields)
  from get_result_done_at_entry [OF assms(1) this, of r]
  show "outcome (kc705_infer (Live d) (Some buf) sz (Some r) w)
          = Some (KC705_SUCCESS,
                  Some \<lparr>class_id = 42, confidence = 8734 / 10000, processing_time_us = 1500,
                        valid = True\<rparr>)"
    using assms(3-5) started_filled_result [OF assms(1) sz, of buf w]
    by (simp add: infer_mapped [OF assms(1) sz] outcome_def filled_result_def)
next
  assume "sz > 4096"
  moreover have "is_open d" using assms(1) by (simp add: fully_mapped_def)
  ultimately show "kc705_infer (Live d) (Some buf) sz (Some r) w
      = Some (KC705_INVALID_PARAM, Some r, w)"
    by (simp add: infer_too_big)
qed

theorem infer_preset_done_witness:
  "outcome (kc705_infer (Live demo_device) (Some blank_image) 4096 (Some stale_result) done_world)
     = Some (KC705_SUCCESS,
             Some \<lparr>class_id = 42, confidence = 8734 / 10000, processing_time_us = 1500,
                   valid = True\<rparr>)
   \<and> kc705_infer (Live demo_device) (Some blank_image) 4097 (Some stale_result) done_world
       = Some (KC705_INVALID_PARAM, Some stale_result, done_world)"
  using infer_preset_done [OF demo_device_mapped(1) done_world_words(4) done_world_words(1-3),
      of 4096 blank_image stale_result]
    infer_preset_done [OF demo_device_mapped(1) done_world_words(4) done_world_words(1-3),
      of 4097 blank_image stale_result]
  by simp

subsection \<open>Upload on the handles \<open>kc705_open_device\<close> makes\<close>

text \<open>
  What holds of \<open>kc705_upload_image\<close> is in the lemmas \<open>upload_too_big\<close>, \<open>upload_mapped\<close>
  and \<open>upload_size_register\<close>: an oversized buffer is refused with nothing written, and on
  a handle with both windows a buffer of at most 4096 bytes is copied and the size register
  holds its size afterwards.
\<close>

text \<open>
  C3. \<open>kc705_open_device\<close> returns an open handle without data window when \<^verbatim>\<open>resource1\<close>
  cannot be opened, and an open handle whose \<open>mem_base\<close> is \<^verbatim>\<open>MAP_FAILED\<close> when the second
  \<^verbatim>\<open>mmap\<close> fails. On the first, \<open>kc705_upload_image\<close> with a 4-byte buffer takes the register
  fallback, whose first write is at offset 0x1000 of a 4096-byte mapping; on the second it
  copies through \<^verbatim>\<open>MAP_FAILED\<close>. Neither call returns: the upload does not succeed and the
  size register is never written.
\<close>

theorem upload_without_data_window:
  "kc705_open_device no_bar1_os 0 = Some demo_device_regs_only
   \<and> kc705_upload_image (Live demo_device_regs_only) (Some blank_image) 4 idle_world = None
   \<and> kc705_open_device bar1_map_fails_os 0 = Some demo_device_map_failed
   \<and> kc705_upload_image (Live demo_device_map_failed) (Some blank_image) 4 idle_world = None"
proof -
  have "kc705_open_device no_bar1_os 0 = Some demo_device_regs_only"
    by (simp add: kc705_open_device_def no_bar1_os_def map_pci_device_def zeroed_device_def
        demo_device_regs_only_def demo_device_def Let_def)
  moreover have "kc705_open_device bar1_map_fails_os 0 = Some demo_device_map_failed"
    by (simp add: kc705_open_device_def bar1_map_fails_os_def map_pci_device_def zeroed_device_def
        demo_device_map_failed_def demo_device_def Let_def)
  moreover have "mem_base demo_device_regs_only = NULL"
    and "is_open demo_device_map_failed" and "mem_base demo_device_map_failed = MAP_FAILED"
    by (simp_all add: demo_device_regs_only_def demo_device_map_failed_def demo_device_def)
  ultimately show ?thesis
    by (simp add: upload_regs_only upload_map_failed)
qed

subsection \<open>What a returned record holds\<close>

text \<open>
  The class id of a returned record is the raw class word modulo 1000, below 1000
  whatever the device wrote; the confidence is the raw word divided by 10000 and is not
  negative.
\<close>

lemma get_result_fields:
  assumes "kc705_get_result device result w = Some (KC705_SUCCESS, result', w')"
  shows "\<exists>d r. device = Live d \<and> result' = Some r \<and> valid r
           \<and> class_id r = result_word d w' 0 mod NUM_CLASSES
           \<and> unat (class_id r) < 1000
           \<and> confidence r = real (unat (result_word d w' 1)) / 10000
           \<and> 0 \<le> confidence r
           \<and> (confidence r \<le> 1) = (unat (result_word d w' 1) \<le> 10000)"
proof -
  from get_result_returns [OF assms] obtain d w1 where
    d: "device = Live d" and r: "result' = Some (filled_result d w1)"
    and w': "w' = w1\<lparr>trace := trace w1 @ result_reads d w1\<rparr>"
    by auto
  have "unat (x mod NUM_CLASSES) < 1000" for x :: u32
    by (simp add: unat_mod)
  then show ?thesis
    using d r w' by (simp add: filled_result_def del: of_nat_unat)
qed

text \<open>
  C4. A device that reports DONE with a class word of 65535 and a confidence word of
  20000: \<open>kc705_get_result\<close> returns \<open>KC705_SUCCESS\<close> and a record with \<open>valid\<close> set whose
  class id has been brought below 1000 (65535 mod 1000 = 535) and whose confidence is
  20000 / 10000 = 2. The class word is guarded against garbage, the confidence word is not,
  and the header documents the field as "Confidence score (0.0-1.0)".
\<close>

theorem get_result_confidence_above_one:
  "outcome (kc705_get_result (Live demo_device) (Some stale_result) garbage_world)
     = Some (KC705_SUCCESS,
             Some \<lparr>class_id = 535, confidence = 2, processing_time_us = 0, valid = True\<rparr>)"
proof -
  have "regs garbage_world REG_STATUS AND STAT_DONE \<noteq> 0"
    by (simp add: garbage_world_def)
  from get_result_done_at_entry [OF demo_device_mapped(1) this, of stale_result]
  show ?thesis
    by (simp add: outcome_def filled_result_def result_word_def demo_device_def garbage_world_def
        load32_def)
qed

subsection \<open>The record after a failure\<close>

lemma idle_timeout:
  "outcome (kc705_get_result (Live demo_device) (Some stale_result) idle_world)
     = Some (KC705_TIMEOUT, Some stale_result)"
proof -
  have "\<forall>j<timeout_ms. \<not> done_at j idle_world" by (simp add: idle_never_done)
  from get_result_never_done [OF demo_device_mapped(2) this, of stale_result]
  show ?thesis by (simp add: outcome_def)
qed

text \<open>
  A record left valid by an earlier inference, handed to a call that times out: it comes
  back as it was, \<open>valid\<close> still set.
\<close>

theorem timeout_leaves_stale_valid:
  "outcome (kc705_get_result (Live demo_device) (Some stale_result) idle_world)
     = Some (KC705_TIMEOUT, Some stale_result)
   \<and> valid stale_result"
  by (rule conjI, rule idle_timeout, simp add: stale_result_def)

text \<open>
  C5, as the code has it. When \<open>kc705_get_result\<close> or \<open>kc705_infer\<close> returns anything but
  \<open>KC705_SUCCESS\<close>, the result record is exactly what the caller passed in: no field has
  been written, so the record is never partially populated and a failing call never sets
  \<open>valid\<close>; it does not clear it either. When they return \<open>KC705_SUCCESS\<close>, the record is
  the one built from the three result words of the device (class word modulo 1000,
  confidence word over 10000, timing word) with \<open>valid\<close> set.
\<close>

theorem failure_leaves_result_untouched:
  assumes "kc705_get_result device result w = Some (ret, result', w')
           \<or> kc705_infer device image_data sz result w = Some (ret, result', w')"
  shows "(ret \<noteq> KC705_SUCCESS \<longrightarrow> result' = result)
       \<and> (ret = KC705_SUCCESS \<longrightarrow>
            (\<exists>d. device = Live d \<and> result' = Some (filled_result d w')))"
proof -
  have g: "(ret \<noteq> KC705_SUCCESS \<longrightarrow> result' = result)
       \<and> (ret = KC705_SUCCESS \<longrightarrow> (\<exists>d. device = Live d \<and> result' = Some (filled_result d w')))"
    if "kc705_get_result device result w0 = Some (ret, result', w')" for w0
    using get_result_returns [OF that] by auto
  from assms show ?thesis
  proof
    assume "kc705_get_result device result w = Some (ret, result', w')"
    then show ?thesis by (rule g)
  next
    assume "kc705_infer device image_data sz result w = Some (ret, result', w')"
    from infer_returns [OF this] show ?thesis using g by blast
  qed
qed

theorem failure_leaves_result_untouched_witness:
  "kc705_get_result (Live demo_device) (Some stale_result) done_world
     = Some (KC705_SUCCESS, Some (filled_result demo_device done_world),
             done_world\<lparr>trace := Reg_read REG_STATUS STAT_DONE
                                 # result_reads demo_device done_world\<rparr>)
   \<and> filled_result demo_device done_world
       = \<lparr>class_id = 42, confidence = 8734 / 10000, processing_time_us = 1500, valid = True\<rparr>
   \<and> kc705_infer (Live demo_device) (Some blank_image) 150528 (Some stale_result) done_world
       = Some (KC705_INVALID_PARAM, Some stale_result, done_world)"
proof -
  have a: "kc705_get_result (Live demo_device) (Some stale_result) done_world
     = Some (KC705_SUCCESS, Some (filled_result demo_device done_world),
             done_world\<lparr>trace := Reg_read REG_STATUS STAT_DONE
                                 # result_reads demo_device done_world\<rparr>)"
    using get_result_done_at_entry [OF demo_device_mapped(1) done_world_words(4), of stale_result]
    by (simp add: done_world_def)
  have b: "kc705_infer (Live demo_device) (Some blank_image) 150528 (Some stale_result) done_world
       = Some (KC705_INVALID_PARAM, Some stale_result, done_world)"
    by (simp add: infer_too_big)
  show ?thesis
    using failure_leaves_result_untouched [OF disjI1 [OF a]]
      failure_leaves_result_untouched [OF disjI2 [OF b]] a b done_world_words(1-3)
    by (simp add: filled_result_def)
qed

subsection \<open>The non-blocking variant\<close>

lemma is_done_null_or_closed:
  "kc705_is_done Null w = Some (False, w)"
  "kc705_is_done (Live (d\<lparr>is_open := False\<rparr>)) w = Some (False, w)"
  by (simp_all add: kc705_is_done_def kc705_read_reg_def)

text \<open>
  C7. \<open>kc705_get_result_nowait\<close> asks \<open>kc705_is_done\<close> first, and \<open>kc705_is_done\<close> answers
  "no" when the register read fails. So a null handle, and a handle whose struct says
  closed, get \<open>KC705_TIMEOUT\<close>, not \<open>KC705_INVALID_PARAM\<close>; nothing is read, logged or written.
\<close>

theorem nowait_null_or_closed_is_timeout:
  "kc705_get_result_nowait Null result w = Some (KC705_TIMEOUT, result, w)
   \<and> kc705_get_result_nowait (Live (d\<lparr>is_open := False\<rparr>)) result w
       = Some (KC705_TIMEOUT, result, w)"
  by (simp add: kc705_get_result_nowait_def is_done_null_or_closed)

text \<open>
  The rest of what is said of the non-blocking variant holds: on an open handle with its
  register window, without DONE it returns \<open>KC705_TIMEOUT\<close> after one status read and no
  sleep; with DONE it is the blocking call, made after that one status read.
\<close>

lemma nowait_not_done:
  assumes "reg_mapped d" and "regs w REG_STATUS AND STAT_DONE = 0"
  shows "kc705_get_result_nowait (Live d) result w =
           Some (KC705_TIMEOUT, result, log_event (Reg_read REG_STATUS (regs w REG_STATUS)) w)"
  using assms by (simp add: kc705_get_result_nowait_def is_done_mapped)

lemma nowait_done:
  assumes "reg_mapped d" and "regs w REG_STATUS AND STAT_DONE \<noteq> 0"
  shows "kc705_get_result_nowait (Live d) result w =
           kc705_get_result (Live d) result (log_event (Reg_read REG_STATUS (regs w REG_STATUS)) w)"
  using assms by (simp add: kc705_get_result_nowait_def is_done_mapped)

subsection \<open>Batches\<close>


text \<open>
  \<open>kc705_infer_file\<close> itself hands \<open>kc705_infer\<close> the 150528 bytes of a full image, which
  \<open>kc705_upload_image\<close> refuses: as a per-item call it never returns \<open>KC705_SUCCESS\<close>.
\<close>

lemma infer_file_never_succeeds:
  assumes "kc705_infer_file fs device filename result w = Some (ret, result', w')"
  shows "ret \<noteq> KC705_SUCCESS \<and> result' = result \<and> w' = w"
proof (cases "fs filename")
  case None
  with assms show ?thesis by (simp add: kc705_infer_file_def kc705_load_image_def)
next
  case (Some bytes)
  show ?thesis
  proof (cases "length bytes < 224 * 224 * 3")
    case True
    with assms Some show ?thesis by (simp add: kc705_infer_file_def kc705_load_image_def)
  next
    case False
    then have "kc705_infer_file fs device filename result w =
        kc705_infer device (Some (\<lambda>i. if i < 150528 then bytes ! i else 0)) 150528 result w"
      using Some by (simp add: kc705_infer_file_def kc705_load_image_def)
    with assms show ?thesis
      by (auto simp: kc705_infer_def kc705_upload_image_def split: handle.splits if_splits)
  qed
qed

lemma infer_file_returns:
  assumes "device \<noteq> Freed"
  shows "\<exists>ret. kc705_infer_file fs device filename result w = Some (ret, result, w)
           \<and> ret \<noteq> KC705_SUCCESS"
  using assms
  by (auto simp: kc705_infer_file_def kc705_load_image_def kc705_infer_def kc705_upload_image_def
      Let_def split: option.splits handle.splits)

text \<open>
  \<open>kc705_infer_batch\<close> is the loop with \<open>kc705_infer_file\<close> as the per-item call, and so
  counts nothing and leaves the array as it was.
\<close>

lemma infer_batch_is_loop:
  "kc705_infer_batch fs device image_files results w = Some (ret, results', w') \<longleftrightarrow>
   (\<exists>n. ret = int n
      \<and> infer_batch_loop (kc705_infer_file fs device) image_files results 0 w
          = Some (n, results', w'))"
  by (auto simp: kc705_infer_batch_def split: option.splits)

lemma infer_batch_loop_counts_nothing:
  assumes "device \<noteq> Freed"
  shows "infer_batch_loop (kc705_infer_file fs device) image_files results processed w
           = Some (processed, results, w)"
proof (induction image_files)
  case Nil
  show ?case by simp
next
  case (Cons image_file rest)
  from infer_file_returns [OF assms, of fs image_file "Some (results processed)" w]
  obtain ret where "kc705_infer_file fs device image_file (Some (results processed)) w
      = Some (ret, Some (results processed), w)" and "ret \<noteq> KC705_SUCCESS"
    by blast
  with Cons show ?case by simp
qed

lemma infer_batch_counts_nothing:
  "kc705_infer_batch batch_files (Live demo_device) batch_names (\<lambda>i. stale_result) done_world
     = Some (0, (\<lambda>i. stale_result), done_world)"
  by (simp add: kc705_infer_batch_def infer_batch_loop_counts_nothing)



subsection \<open>Closing\<close>

lemma close_null: "kc705_close Null w = Some (KC705_INVALID_PARAM, Null, w)"
  by (simp add: kc705_close_def)

lemma close_not_open:
  "kc705_close (Live (d\<lparr>is_open := False\<rparr>)) w
     = Some (KC705_INVALID_PARAM, Live (d\<lparr>is_open := False\<rparr>), w)"
  by (simp add: kc705_close_def)

lemma close_open:
  assumes "is_open d"
  shows "kc705_close (Live d) w = Some (KC705_SUCCESS, Freed, w\<lparr>trace := trace w @ close_events d\<rparr>)"
  using assms by (cases "reg_base d"; cases "mem_base d")
    (simp_all add: kc705_close_def close_events_def Let_def log_as_update)

text \<open>
  C8. Closing an open handle releases both mappings, the file descriptor and the struct,
  once each, and returns \<open>KC705_SUCCESS\<close>. The struct is freed, so the pointer the caller
  still holds is dangling: a second \<open>kc705_close\<close> on it reads \<open>is_open\<close> from freed memory
  and has no defined return, \<open>KC705_INVALID_PARAM\<close> or other.
\<close>

theorem close_twice_reads_freed_struct:
  "kc705_close (Live demo_device) idle_world
     = Some (KC705_SUCCESS, Freed,
             idle_world\<lparr>trace := [Munmap_reg, Munmap_mem, Close_fd 3, Free_device]\<rparr>)
   \<and> kc705_close Freed (idle_world\<lparr>trace := [Munmap_reg, Munmap_mem, Close_fd 3, Free_device]\<rparr>)
       = None"
  by (simp add: close_open close_events_def demo_device_def idle_world_def kc705_close_def)

text \<open>
  What does hold: a null handle, and a struct that is still allocated with its flag
  clear, get \<open>KC705_INVALID_PARAM\<close> and nothing happens (\<open>close_null\<close>,
  \<open>close_not_open\<close>); an open handle is released as said, each mapping only if it is
  there (\<open>close_open\<close>). No function of the driver clears the flag and keeps the struct.
\<close>

subsection \<open>Opening\<close>





subsection \<open>The ERROR bit\<close>

lemma done_bit_hide_error: "(s OR STAT_ERROR) AND STAT_DONE = s AND STAT_DONE" for s :: u32
  by (simp add: bit.conj_disj_distrib2)

lemma hide_error_apply:
  "hide_error r a = (if a = REG_STATUS then r REG_STATUS OR STAT_ERROR else r a)"
  by (simp add: hide_error_def)

lemma hide_error_eqD:
  assumes "hide_error r = hide_error r'"
  shows "r REG_STATUS OR STAT_ERROR = r' REG_STATUS OR STAT_ERROR"
    and "a \<noteq> REG_STATUS \<Longrightarrow> r a = r' a"
  using fun_cong [OF assms, of REG_STATUS] fun_cong [OF assms, of a]
  by (simp_all add: hide_error_apply)

lemma hide_error_done:
  assumes "hide_error r = hide_error r'"
  shows "r REG_STATUS AND STAT_DONE = r' REG_STATUS AND STAT_DONE"
proof -
  have "r REG_STATUS AND STAT_DONE = (r REG_STATUS OR STAT_ERROR) AND STAT_DONE"
    by (simp only: done_bit_hide_error)
  also have "\<dots> = (r' REG_STATUS OR STAT_ERROR) AND STAT_DONE"
    by (simp only: hide_error_eqD(1) [OF assms])
  also have "\<dots> = r' REG_STATUS AND STAT_DONE"
    by (simp only: done_bit_hide_error)
  finally show ?thesis .
qed

lemma hide_error_upd:
  "hide_error r = hide_error r' \<Longrightarrow> hide_error (r(a := v)) = hide_error (r'(a := v))"
  by (rule ext) (auto simp: hide_error_apply dest: hide_error_eqD)

lemma same_up_to_error_regs: "same_up_to_error w w' \<Longrightarrow> hide_error (regs w) = hide_error (regs w')"
  by (simp add: same_up_to_error_def)

lemma same_up_to_error_log:
  "same_up_to_error w w' \<Longrightarrow> hide_error_event e = hide_error_event e' \<Longrightarrow>
   same_up_to_error (log_event e w) (log_event e' w')"
  by (simp add: same_up_to_error_def)

lemma same_up_to_error_usleep:
  assumes "same_up_to_error w w'"
  shows "same_up_to_error (usleep us w) (usleep us w')"
proof -
  from assms have r: "hide_error (regs w) = hide_error (regs w')" and m: "mem w = mem w'"
    and n: "now w = now w'" and h: "hw_up_to_error (hw w) (hw w')"
    and t: "map hide_error_event (trace w) = map hide_error_event (trace w')"
    by (simp_all add: same_up_to_error_def)
  from h r have "hide_error (fst (hw w (now w + us) (regs w, mem w)))
        = hide_error (fst (hw w' (now w + us) (regs w', mem w)))
      \<and> snd (hw w (now w + us) (regs w, mem w)) = snd (hw w' (now w + us) (regs w', mem w))"
    unfolding hw_up_to_error_def by blast
  with m n t h show ?thesis
    by (simp add: same_up_to_error_def)
qed

lemma same_return_simps [simp]:
  "same_return None None"
  "same_return (Some (r, w)) (Some (r', w')) = (r = r' \<and> same_up_to_error w w')"
  "\<not> same_return None (Some x)"
  "\<not> same_return (Some x) None"
  by (simp_all add: same_return_def split: prod.splits)

lemma same_outcome_simps [simp]:
  "same_outcome None None"
  "same_outcome (Some (r, res, w)) (Some (r', res', w'))
     = (r = r' \<and> res = res' \<and> same_up_to_error w w')"
  "\<not> same_outcome None (Some x)"
  "\<not> same_outcome (Some x) None"
  by (simp_all add: same_outcome_def split: prod.splits)

lemma same_up_to_error_reg_written:
  assumes "same_up_to_error w w'"
  shows "same_up_to_error (log_event (Reg_write a v) (w\<lparr>regs := (regs w)(a := v)\<rparr>))
           (log_event (Reg_write a v) (w'\<lparr>regs := (regs w')(a := v)\<rparr>))"
proof -
  have "same_up_to_error (w\<lparr>regs := (regs w)(a := v)\<rparr>) (w'\<lparr>regs := (regs w')(a := v)\<rparr>)"
    using assms hide_error_upd [of "regs w" "regs w'" a v] by (simp add: same_up_to_error_def)
  then show ?thesis by (rule same_up_to_error_log) simp
qed

lemma same_up_to_error_write_reg:
  assumes "same_up_to_error w w'"
  shows "same_return (kc705_write_reg device a v w) (kc705_write_reg device a v w')"
  using assms same_up_to_error_reg_written [OF assms, of a v]
  by (simp add: kc705_write_reg_def split: handle.splits)

lemma same_up_to_error_is_done:
  assumes "same_up_to_error w w'"
  shows "same_return (kc705_is_done device w) (kc705_is_done device w')"
proof -
  note r = same_up_to_error_regs [OF assms]
  have d: "regs w REG_STATUS AND STAT_DONE = regs w' REG_STATUS AND STAT_DONE"
    by (rule hide_error_done [OF r])
  have "hide_error_event (Reg_read REG_STATUS (regs w REG_STATUS))
      = hide_error_event (Reg_read REG_STATUS (regs w' REG_STATUS))"
    using hide_error_eqD(1) [OF r] by simp
  with assms have l: "same_up_to_error (log_event (Reg_read REG_STATUS (regs w REG_STATUS)) w)
      (log_event (Reg_read REG_STATUS (regs w' REG_STATUS)) w')"
    by (rule same_up_to_error_log)
  show ?thesis
    using assms l d by (simp add: is_done_cases split: handle.splits)
qed

lemma same_returnE:
  assumes "same_return x y"
  obtains "x = None" and "y = None"
  | r w w' where "x = Some (r, w)" and "y = Some (r, w')" and "same_up_to_error w w'"
  using assms by (cases x; cases y) auto

lemma same_up_to_error_poll:
  "same_up_to_error w w' \<Longrightarrow> same_return (poll device e w) (poll device e w')"
proof (induction "timeout_ms - e" arbitrary: e w w' rule: less_induct)
  case (less e w w')
  from same_up_to_error_is_done [OF less.prems, of device] show ?case
  proof (cases rule: same_returnE)
    case 1
    then show ?thesis by (simp add: poll.simps [of device e w] poll.simps [of device e w'])
  next
    case (2 fin w1 w1')
    show ?thesis
    proof (cases "\<not> fin \<and> e < timeout_ms")
      case True
      then have "timeout_ms - (e + 1) < timeout_ms - e" by linarith
      from less.hyps [OF this same_up_to_error_usleep [OF 2(3)]] show ?thesis
        using 2 True by (simp add: poll.simps [of device e w] poll.simps [of device e w'])
    next
      case False
      then show ?thesis
        using 2 by (auto simp: poll.simps [of device e w] poll.simps [of device e w'])
    qed
  qed
qed

lemma same_up_to_error_result_word:
  assumes "same_up_to_error w w'" and "mem_base d = Mapped"
  shows "result_word d w k = result_word d w' k"
  using assms by (simp add: result_word_def same_up_to_error_def)

lemma read_result_words_cases:
  assumes "reg_mapped d"
  shows "read_result_words (Live d) d w =
           (if mem_base d = Mapped
            then Some (result_word d w 0, result_word d w 1, result_word d w 2,
                       w\<lparr>trace := trace w @ result_reads d w\<rparr>)
            else None)"
proof (cases "mem_base d = Mapped")
  case True
  with assms have "fully_mapped d" by (simp add: fully_mapped_def reg_mapped_def)
  with True show ?thesis by (simp add: read_result_words_mapped)
next
  case False
  then have "read_result_words (Live d) d w = None"
    using read_result_words_returns [OF assms, of w]
    by (cases "read_result_words (Live d) d w") auto
  with False show ?thesis by simp
qed

lemma same_up_to_error_get_result:
  assumes "same_up_to_error w w'"
  shows "same_outcome (kc705_get_result device result w) (kc705_get_result device result w')"
proof (cases device)
  case Null
  with assms show ?thesis by (simp add: get_result_guard)
next
  case Freed
  then show ?thesis by (simp add: get_result_guard)
next
  case (Live d)
  show ?thesis
  proof (cases "\<not> is_open d \<or> result = None")
    case True
    with assms Live show ?thesis by (auto simp: get_result_guard)
  next
    case False
    from same_up_to_error_poll [OF assms, of "Live d" 0] show ?thesis
    proof (cases rule: same_returnE)
      case 1
      with Live False show ?thesis by (auto simp: get_result_guard)
    next
      case (2 e w1 w1')
      show ?thesis
      proof (cases "e \<ge> timeout_ms")
        case True
        with Live False 2 show ?thesis by (auto simp: get_result_guard)
      next
        case e: False
        then have "e < timeout_ms" by simp
        from poll_in_budget [OF 2(1) this] have rm: "reg_mapped d" by simp
        show ?thesis
        proof (cases "mem_base d = Mapped")
          case True
          have "same_up_to_error (w1\<lparr>trace := trace w1 @ result_reads d w1\<rparr>)
              (w1'\<lparr>trace := trace w1' @ result_reads d w1'\<rparr>)"
            using 2(3) same_up_to_error_result_word [OF 2(3) True]
            by (simp add: same_up_to_error_def result_reads_def)
          then show ?thesis
            using Live False 2 e True same_up_to_error_result_word [OF 2(3) True]
            by (auto simp: get_result_guard read_result_words_cases [OF rm])
        next
          case m: False
          then show ?thesis
            using Live False 2 e
            by (auto simp: get_result_guard read_result_words_cases [OF rm])
        qed
      qed
    qed
  qed
qed

lemma same_up_to_error_upload_words:
  "same_up_to_error w w' \<Longrightarrow>
   rel_option same_up_to_error (upload_words device buf sz i w) (upload_words device buf sz i w')"
proof (induction "sz - i" arbitrary: i w w' rule: less_induct)
  case (less i w w')
  show ?case
  proof (cases "i < sz")
    case False
    with less.prems show ?thesis
      by (simp add: upload_words.simps [of device buf sz i])
  next
    case True
    from same_up_to_error_write_reg [OF less.prems, of device "of_nat (KC705_IMAGE_BASE + i)"
        "load32 buf i"]
    show ?thesis
    proof (cases rule: same_returnE)
      case 1
      with True show ?thesis by (simp add: upload_words.simps [of device buf sz i])
    next
      case (2 rc w1 w1')
      have "sz - (i + 4) < sz - i" using True by linarith
      from less.hyps [OF this 2(3)] show ?thesis
        using 2 True by (simp add: upload_words.simps [of device buf sz i])
    qed
  qed
qed

lemma same_up_to_error_memcpy_image:
  "same_up_to_error w w' \<Longrightarrow> same_up_to_error (memcpy_image buf sz w) (memcpy_image buf sz w')"
  by (auto simp: memcpy_image_def same_up_to_error_def)

lemma same_up_to_error_upload_image:
  assumes "same_up_to_error w w'"
  shows "same_return (kc705_upload_image device image_data sz w)
           (kc705_upload_image device image_data sz w')"
proof (cases "\<exists>d buf. device = Live d \<and> is_open d \<and> image_data = Some buf \<and> sz \<le> 4096")
  case False
  with assms show ?thesis
    by (auto simp: kc705_upload_image_def split: handle.splits option.splits)
next
  case True
  then obtain d buf where d: "device = Live d" "is_open d" "image_data = Some buf" "sz \<le> 4096"
    by blast
  define placed where "placed v =
     (if mem_base d \<noteq> NULL
      then (if mem_base d = MAP_FAILED then None else Some (memcpy_image buf sz v))
      else upload_words (Live d) buf sz 0 v)" for v
  have u: "kc705_upload_image (Live d) (Some buf) sz v =
      (case placed v of
         None \<Rightarrow> None
       | Some w1 \<Rightarrow>
           (case kc705_write_reg (Live d) REG_IMAGE_SIZE (of_nat sz) w1 of
              None \<Rightarrow> None
            | Some (rc, w2) \<Rightarrow> Some (KC705_SUCCESS, w2)))" for v
    using d(2,4) by (simp add: kc705_upload_image_def placed_def)
  have "rel_option same_up_to_error (placed w) (placed w')"
    using same_up_to_error_upload_words [OF assms, of "Live d" buf sz 0]
      same_up_to_error_memcpy_image [OF assms, of buf sz]
    by (simp add: placed_def)
  then show ?thesis
  proof (cases rule: option.rel_cases)
    case None
    then show ?thesis by (simp add: d(1,3) u)
  next
    case (Some w1 w1')
    from same_up_to_error_write_reg [OF Some(3), of "Live d" REG_IMAGE_SIZE "of_nat sz"]
    show ?thesis
      by (cases rule: same_returnE) (simp_all add: d(1,3) u Some)
  qed
qed

lemma same_up_to_error_start_inference:
  assumes "same_up_to_error w w'"
  shows "same_return (kc705_start_inference device w) (kc705_start_inference device w')"
  using assms same_up_to_error_write_reg [OF assms, of device REG_CONTROL "CTRL_START OR CTRL_IRQ_EN"]
  by (auto simp: kc705_start_inference_def split: handle.splits)

lemma same_up_to_error_reset:
  assumes "same_up_to_error w w'"
  shows "same_return (kc705_reset device w) (kc705_reset device w')"
  using same_up_to_error_write_reg [OF assms, of device REG_CONTROL CTRL_RESET]
proof (cases rule: same_returnE)
  case 1
  then show ?thesis by (simp add: kc705_reset_def)
next
  case (2 ret w1 w1')
  from same_up_to_error_write_reg [OF same_up_to_error_usleep [OF 2(3)], of device REG_CONTROL 0 1000]
  show ?thesis using 2 by (simp add: kc705_reset_def)
qed

lemma same_up_to_error_nowait:
  assumes "same_up_to_error w w'"
  shows "same_outcome (kc705_get_result_nowait device result w)
           (kc705_get_result_nowait device result w')"
  using same_up_to_error_is_done [OF assms, of device]
proof (cases rule: same_returnE)
  case 1
  then show ?thesis by (simp add: kc705_get_result_nowait_def)
next
  case (2 fin w1 w1')
  from same_up_to_error_get_result [OF 2(3), of device result] show ?thesis
    using 2 by (simp add: kc705_get_result_nowait_def)
qed

lemma same_up_to_error_infer:
  assumes "same_up_to_error w w'"
  shows "same_outcome (kc705_infer device image_data sz result w)
           (kc705_infer device image_data sz result w')"
  using same_up_to_error_upload_image [OF assms, of device image_data sz]
proof (cases rule: same_returnE)
  case 1
  then show ?thesis by (simp add: kc705_infer_def)
next
  case (2 r1 w1 w1')
  from same_up_to_error_start_inference [OF 2(3), of device] show ?thesis
  proof (cases rule: same_returnE)
    case 1
    with 2 show ?thesis by (simp add: kc705_infer_def)
  next
    case (2 r2 w2 w2')
    from same_up_to_error_get_result [OF 2(3), of device result] show ?thesis
      using 2 \<open>kc705_upload_image device image_data sz w = Some (r1, w1)\<close>
        \<open>kc705_upload_image device image_data sz w' = Some (r1, w1')\<close> \<open>same_up_to_error w1 w1'\<close>
      by (simp add: kc705_infer_def)
  qed
qed

lemma late_error_rounds:
  "k \<le> timeout_ms \<Longrightarrow>
   regs ((poll_round ^^ k) late_error_world) REG_STATUS
     = (if k = timeout_ms then STAT_DONE OR STAT_ERROR else 0)"
proof (induction k)
  case 0
  then show ?case by (simp add: late_error_world_def)
next
  case (Suc k)
  then have "regs ((poll_round ^^ k) late_error_world) REG_STATUS = 0" by simp
  moreover have "hw late_error_world = late_error_hw" and "now late_error_world = 0"
    by (simp_all add: late_error_world_def)
  ultimately show ?case using Suc.prems by (auto simp: late_error_hw_def)
qed

lemma same_up_to_error_done_only: "same_up_to_error garbage_world done_only_world"
proof -
  have "hw_up_to_error static_hw static_hw"
    by (simp add: hw_up_to_error_def static_hw_def)
  then show ?thesis
    by (simp add: same_up_to_error_def done_only_world_def garbage_world_def hide_error_def)
qed

text \<open>
  Two ways the bit shows. \<open>kc705_read_reg\<close> on the status register hands the whole word
  to its caller: on two devices that differ in the ERROR bit alone it returns different
  values. And \<open>kc705_get_result\<close> does not return \<open>KC705_SUCCESS\<close> whenever it has seen
  DONE: on the device that raises DONE and ERROR as the budget runs out, its last status
  read has both bits set and it returns \<open>KC705_TIMEOUT\<close>.
\<close>

theorem error_bit_reaches_caller:
  "outcome (kc705_read_reg (Live demo_device) REG_STATUS 0 garbage_world)
     = Some (KC705_SUCCESS, STAT_DONE OR STAT_ERROR)
   \<and> outcome (kc705_read_reg (Live demo_device) REG_STATUS 0 done_only_world)
     = Some (KC705_SUCCESS, STAT_DONE)
   \<and> outcome (kc705_get_result (Live demo_device) (Some stale_result) late_error_world)
     = Some (KC705_TIMEOUT, Some stale_result)
   \<and> map_option last
       (final_trace (kc705_get_result (Live demo_device) (Some stale_result) late_error_world))
     = Some (Reg_read REG_STATUS (STAT_DONE OR STAT_ERROR))"
proof -
  have "in_reg_window REG_STATUS" by (simp add: in_reg_window_def)
  then have r: "kc705_read_reg (Live demo_device) REG_STATUS 0 v
      = Some (KC705_SUCCESS, regs v REG_STATUS, log_event (Reg_read REG_STATUS (regs v REG_STATUS)) v)"
    for v
    by (simp add: kc705_read_reg_def demo_device_def in_reg_window_def)
  have "\<forall>j<timeout_ms. \<not> done_at j late_error_world"
    by (simp add: done_at_def late_error_rounds)
  from get_result_never_done [OF demo_device_mapped(2) this, of stale_result]
  show ?thesis
    using late_error_rounds [of timeout_ms]
    by (simp add: r outcome_def final_trace_def garbage_world_def done_only_world_def)
qed

text \<open>
  C10, as the code has it. Take two worlds that differ at most in the ERROR bit of the
  status register, now and in whatever the device does later. On any handle,
  \<open>kc705_is_done\<close>, \<open>kc705_get_result\<close>, \<open>kc705_get_result_nowait\<close>, \<open>kc705_infer\<close>,
  \<open>kc705_upload_image\<close>, \<open>kc705_start_inference\<close>, \<open>kc705_reset\<close> and \<open>kc705_write_reg\<close> end
  alike in both: neither call returns, or both return the same value and the same result
  record, having written the same and slept the same; the worlds they leave differ at
  most in that bit, in the register and in the logged status reads. And on a handle with
  both windows, when the first check to report DONE is one of the first 5000,
  \<open>kc705_get_result\<close> returns \<open>KC705_SUCCESS\<close> and the filled record, \<open>valid\<close> set, whatever
  the ERROR bit says. \<open>kc705_read_reg\<close> is not among these functions, and a DONE first
  seen on the 5001st check is not among these cases.
\<close>

theorem error_bit_never_surfaces:
  assumes "same_up_to_error w w'"
  shows "same_return (kc705_is_done device w) (kc705_is_done device w')
       \<and> same_outcome (kc705_get_result device result w) (kc705_get_result device result w')
       \<and> same_outcome (kc705_get_result_nowait device result w)
           (kc705_get_result_nowait device result w')
       \<and> same_outcome (kc705_infer device image_data sz result w)
           (kc705_infer device image_data sz result w')
       \<and> same_return (kc705_upload_image device image_data sz w)
           (kc705_upload_image device image_data sz w')
       \<and> same_return (kc705_start_inference device w) (kc705_start_inference device w')
       \<and> same_return (kc705_reset device w) (kc705_reset device w')
       \<and> same_return (kc705_write_reg device offset v w) (kc705_write_reg device offset v w')
       \<and> (fully_mapped d \<and> k < timeout_ms \<and> (\<forall>j<k. \<not> done_at j w) \<and> done_at k w \<longrightarrow>
            outcome (kc705_get_result (Live d) (Some r) w)
              = Some (KC705_SUCCESS, Some (filled_result d ((poll_round ^^ k) w)))
            \<and> valid (filled_result d ((poll_round ^^ k) w)))"
proof -
  have "outcome (kc705_get_result (Live d) (Some r) w)
          = Some (KC705_SUCCESS, Some (filled_result d ((poll_round ^^ k) w)))
        \<and> valid (filled_result d ((poll_round ^^ k) w))"
    if "fully_mapped d" "k < timeout_ms" "\<forall>j<k. \<not> done_at j w" "done_at k w"
    using get_result_first_done [OF that(1,3,4,2), of r]
    by (simp add: outcome_def filled_result_def)
  then show ?thesis
    using same_up_to_error_is_done [OF assms] same_up_to_error_get_result [OF assms]
      same_up_to_error_nowait [OF assms] same_up_to_error_infer [OF assms]
      same_up_to_error_upload_image [OF assms] same_up_to_error_start_inference [OF assms]
      same_up_to_error_reset [OF assms] same_up_to_error_write_reg [OF assms]
    by blast
qed

theorem error_bit_never_surfaces_witness:
  "same_outcome (kc705_get_result (Live demo_device) (Some stale_result) garbage_world)
     (kc705_get_result (Live demo_device) (Some stale_result) done_only_world)
   \<and> regs garbage_world REG_STATUS AND STAT_ERROR \<noteq> 0
   \<and> regs done_only_world REG_STATUS AND STAT_ERROR = 0
   \<and> outcome (kc705_get_result (Live demo_device) (Some stale_result) garbage_world)
       = Some (KC705_SUCCESS, Some (filled_result demo_device garbage_world))
   \<and> valid (filled_result demo_device garbage_world)"
proof -
  have d: "done_at 0 garbage_world" and n: "\<forall>j<0. \<not> done_at j garbage_world"
    and k: "(0::nat) < timeout_ms"
    by (simp_all add: done_at_def garbage_world_def)
  have b: "regs garbage_world REG_STATUS AND STAT_ERROR \<noteq> 0"
    "regs done_only_world REG_STATUS AND STAT_ERROR = 0"
    by (simp_all add: garbage_world_def done_only_world_def)
  show ?thesis
    using error_bit_never_surfaces [OF same_up_to_error_done_only, of "Live demo_device"
        "Some stale_result" "Some blank_image" 16 REG_CONTROL 0 demo_device 0 stale_result]
      demo_device_mapped(1) d n k b
    by simp
qed

end
